theory Spec2Isabelle
  imports Main "HOL-Library.Word"
begin

unbundle bit_operations_syntax

section \<open>JavaScript values shared by the models\<close>

text \<open>
  A JavaScript string is a sequence of UTF-16 code units. All character tests of the
  source are on code units.
\<close>

type_synonym jschar = nat
type_synonym jsstring = "jschar list"

text \<open>
  Exceptions of the source are values: every function of the source that can throw
  returns \<open>js_error + 'a\<close>, with \<open>Inl\<close> for the exception. \<open>NoReturn\<close> stands for a
  loop of the source that has no exit (it ends only when the engine runs out of memory).
  Exhaustion of memory by very large arrays is otherwise not modelled.
\<close>

datatype js_error = RangeError | TypeError | Error jsstring | NoReturn

text \<open>
  An array element read in JavaScript gives \<open>undefined\<close> outside the array. The elements
  of the id vectors are numbers (non-negative integers here) or \<open>undefined\<close>.
\<close>

datatype jsval = Num nat | Undefined

definition js_index :: "jsval list \<Rightarrow> nat \<Rightarrow> jsval" where
  "js_index xs k = (if k < length xs then xs ! k else Undefined)"

text \<open>
  \<open>Number(b)\<close> for a non-negative BigInt \<open>b\<close>: the nearest double, ties to even. Below
  \<open>2 ^ 53\<close> every integer is a double; above, only 53 significant bits are kept.
\<close>

fun bit_length :: "nat \<Rightarrow> nat" where
  "bit_length n = (if n = 0 then 0 else Suc (bit_length (n div 2)))"

declare bit_length.simps [simp del]

definition toNumber :: "nat \<Rightarrow> nat" where
  "toNumber n =
     (if n < 2 ^ 53 then n
      else let e = bit_length n - 53; q = n div 2 ^ e; r = n mod 2 ^ e; half = 2 ^ (e - 1)
           in (if half < r \<or> (r = half \<and> odd q) then q + 1 else q) * 2 ^ e)"

text \<open>
  \<open>1 << n\<close> on JavaScript numbers: the shift count is taken modulo 32 and the result is a
  signed 32-bit integer, so \<open>1 << 31\<close> is negative and \<open>1 << 32\<close> is 1.
\<close>

definition jsShl1 :: "int \<Rightarrow> int" where
  "jsShl1 n = sint (push_bit (nat (n mod 32)) (1 :: 32 word))"

section \<open>Column value decoder: the hybrid run-length / bit-packed index (app.js)\<close>

record primary_entry =
  dataValue :: "32 word"
  repeatValue :: "32 word"

record idf_data =
  primarySegment :: "primary_entry list"
  subSegment :: "64 word list"

text \<open>
  The result of \<open>readIdfMeta\<close>. \<open>countBitPacked\<close> and \<open>rowCount\<close> are numbers read from
  unsigned 64-bit fields; \<open>bitWidth = (36 - aba5a) + iterator\<close> is any integer.
\<close>

record idf_meta =
  minDataId :: "32 word"
  countBitPacked :: nat
  bitWidth :: int
  rowCount :: nat

text \<open>
  The inner loop of the unpacking,
  \<^verbatim>\<open>for (let j = 0; j < count; j++) { push(Number(minId + (val & mask))); val >>= bw; }\<close>
  with \<open>count = 64 / bitWidth\<close> a double: for a positive width and an integer \<open>j\<close>,
  \<open>j < 64 / bitWidth\<close> holds exactly when \<open>j * bitWidth < 64\<close> (the quotient is either
  exact or further from every integer than the rounding error); for a negative width
  the loop body never runs. Width 0 (count \<open>Infinity\<close>) is handled by the caller.
  \<open>val\<close> and \<open>mask\<close> are BigInts: \<open>AND\<close> on \<open>int\<close> is the same two's complement
  operation, and \<open>>>\<close> by a positive amount is \<open>drop_bit\<close>.
\<close>

function unpackLoop :: "int \<Rightarrow> nat \<Rightarrow> int \<Rightarrow> nat \<Rightarrow> int \<Rightarrow> jsval list \<Rightarrow> jsval list" where
  "unpackLoop msk minId bw j val acc =
     (if 0 < bw \<and> int j * bw < 64
      then unpackLoop msk minId bw (Suc j) (drop_bit (nat bw) val)
             (acc @ [Num (toNumber (nat (int minId + (val AND msk))))])
      else acc)"
  by pat_completeness auto
termination
proof (relation "measure (\<lambda>(msk, minId, bw, j, val, acc). 64 - j)", goal_cases)
  case 1
  show ?case by simp
next
  case (2 msk minId bw j val acc)
  then have a: "0 < bw" "int j * bw < 64"
    by auto
  have "int j * 1 \<le> int j * bw"
    using a by (intro mult_left_mono) auto
  with a have "j < 64"
    by linarith
  then show ?case
    by simp
qed

declare unpackLoop.simps [simp del]

text \<open>The outer loop \<^verbatim>\<open>for (const u64 of subSegment)\<close>: every word is unpacked in turn.\<close>

fun unpackWords :: "int \<Rightarrow> nat \<Rightarrow> int \<Rightarrow> 64 word list \<Rightarrow> jsval list \<Rightarrow> jsval list" where
  "unpackWords msk minId bw [] acc = acc"
| "unpackWords msk minId bw (u64 # rest) acc =
     unpackWords msk minId bw rest (unpackLoop msk minId bw 0 (uint u64) acc)"

text \<open>
  The first half of \<open>decodeRleBitPackedHybrid\<close>: the array \<open>bitpackedValues\<close>.
  \<open>new Array(n)\<close> throws a RangeError unless \<open>n\<close> is below \<open>2 ^ 32\<close>.
\<close>

definition bitpackedValues :: "idf_data \<Rightarrow> idf_meta \<Rightarrow> js_error + jsval list" where
  "bitpackedValues idfData meta =
     (if 0 < countBitPacked meta \<and> 0 < length (subSegment idfData) then
        (if length (subSegment idfData) = 1 \<and> subSegment idfData ! 0 = 0 then
           (if countBitPacked meta < 2 ^ 32
            then Inr (replicate (countBitPacked meta) (Num (unat (minDataId meta))))
            else Inl RangeError)
         else if bitWidth meta = 0 then Inl NoReturn
         else Inr (unpackWords (jsShl1 (bitWidth meta) - 1) (unat (minDataId meta))
                     (bitWidth meta) (subSegment idfData) []))
      else Inr [])"

text \<open>
  The second half: the primary segment is expanded into the id vector. The state of the
  loop is the bit-pack cursor \<open>bpOffset\<close> and the vector built so far. The cursor moves
  only in the sentinel branch, where it was at most \<open>0xFFFFFFFF\<close>, so it stays far below
  \<open>2 ^ 53\<close> and the additions on doubles are exact.
\<close>

function takeLoop :: "jsval list \<Rightarrow> nat \<Rightarrow> nat \<Rightarrow> nat \<Rightarrow> jsval list \<Rightarrow> jsval list" where
  "takeLoop bp bpOffset count i vec =
     (if i < count \<and> bpOffset + i < length bp
      then takeLoop bp bpOffset count (Suc i) (vec @ [js_index bp (bpOffset + i)])
      else vec)"
  by pat_completeness auto
termination
  by (relation "measure (\<lambda>(bp, bpOffset, count, i, vec). count - i)") auto

declare takeLoop.simps [simp del]

fun repeatLoop :: "nat \<Rightarrow> jsval \<Rightarrow> jsval list \<Rightarrow> jsval list" where
  "repeatLoop 0 v vec = vec"
| "repeatLoop (Suc n) v vec = repeatLoop n v (vec @ [v])"

definition expandEntry :: "jsval list \<Rightarrow> nat \<times> jsval list \<Rightarrow> primary_entry \<Rightarrow> nat \<times> jsval list" where
  "expandEntry bp st entry =
     (case st of (bpOffset, vec) \<Rightarrow>
        if unat (dataValue entry) + bpOffset = 0xFFFFFFFF
        then (bpOffset + unat (repeatValue entry),
              takeLoop bp bpOffset (unat (repeatValue entry)) 0 vec)
        else (bpOffset,
              repeatLoop (unat (repeatValue entry)) (Num (unat (dataValue entry))) vec))"

definition expandPrimary :: "jsval list \<Rightarrow> primary_entry list \<Rightarrow> nat \<times> jsval list" where
  "expandPrimary bp entries = foldl (expandEntry bp) (0, []) entries"

definition decodeRleBitPackedHybrid :: "idf_data \<Rightarrow> idf_meta \<Rightarrow> js_error + jsval list" where
  "decodeRleBitPackedHybrid idfData meta =
     (case bitpackedValues idfData meta of
        Inl e \<Rightarrow> Inl e
      | Inr bp \<Rightarrow> Inr (snd (expandPrimary bp (primarySegment idfData))))"


text \<open>
  The unpacking as the specification words it (section 4.5): each word is read
  most-significant field first, in \<open>64 / bitWidth\<close> fields of \<open>bitWidth\<close> bits, each
  field added to the minimum dictionary id. It is compared with the code below.
\<close>

definition spec_unpackMsbFirst :: "nat \<Rightarrow> nat \<Rightarrow> 64 word \<Rightarrow> jsval list" where
  "spec_unpackMsbFirst w minId u64 =
     map (\<lambda>j. Num (minId + unat u64 div 2 ^ (64 - (j + 1) * w) mod 2 ^ w)) [0 ..< 64 div w]"

section \<open>Strings and regular expressions of the query source analyzer (app.js)\<close>

text \<open>\<open>str\<close> turns an ASCII literal into a JavaScript string.\<close>

definition str :: "string \<Rightarrow> jsstring" where
  "str s = map of_char s"

text \<open>The character classes \<open>\w\<close>, \<open>\d\<close>, \<open>\s\<close> (also the set removed by \<open>trim\<close>) and \<open>.\<close>.\<close>

definition isWordChar :: "jschar \<Rightarrow> bool" where
  "isWordChar c =
     ((65 \<le> c \<and> c \<le> 90) \<or> (97 \<le> c \<and> c \<le> 122) \<or> (48 \<le> c \<and> c \<le> 57) \<or> c = 95)"

definition isDigit :: "jschar \<Rightarrow> bool" where
  "isDigit c = (48 \<le> c \<and> c \<le> 57)"

definition isLineTerminator :: "jschar \<Rightarrow> bool" where
  "isLineTerminator c = (c = 10 \<or> c = 13 \<or> c = 0x2028 \<or> c = 0x2029)"

definition isSpace :: "jschar \<Rightarrow> bool" where
  "isSpace c =
     (c = 9 \<or> c = 11 \<or> c = 12 \<or> c = 32 \<or> c = 0xA0 \<or> c = 0x1680
      \<or> (0x2000 \<le> c \<and> c \<le> 0x200A) \<or> c = 0x202F \<or> c = 0x205F \<or> c = 0x3000
      \<or> c = 0xFEFF \<or> isLineTerminator c)"

text \<open>
  Regular expressions as data, and the backtracking matcher of ECMAScript, with the
  continuation of the language definition kept as a stack of frames: \<open>rmatch k s st\<close>
  matches the frames \<open>k\<close> one after the other in \<open>s\<close> from the state \<open>st\<close> (the position
  and the span captured by the one capturing group) and returns the final state of the
  first way to match, in priority order. \<open>Star\<close> is the greedy \<open>*\<close>: it tries one more
  iteration before the rest; the frame \<open>Loop a i\<close> closes an iteration that began at
  position \<open>i\<close> and rejects one that consumed nothing, as the language definition
  does. \<open>CapEnd i\<close> closes the capturing group opened at \<open>i\<close>.
\<close>

datatype regex =
    Eps
  | Cls "jschar \<Rightarrow> bool"
  | Seq regex regex
  | Alt regex regex
  | Star regex
  | Cap regex
  | WordB
  | Bol
  | Eol

datatype frame = R regex | Loop regex nat | CapEnd nat

type_synonym mstate = "nat \<times> (nat \<times> nat) option"

definition wordBefore :: "jsstring \<Rightarrow> nat \<Rightarrow> bool" where
  "wordBefore s i = (0 < i \<and> i \<le> length s \<and> isWordChar (s ! (i - 1)))"

definition wordAt :: "jsstring \<Rightarrow> nat \<Rightarrow> bool" where
  "wordAt s i = (i < length s \<and> isWordChar (s ! i))"

fun rsize :: "regex \<Rightarrow> nat" where
  "rsize (Seq a b) = Suc (rsize a + rsize b)"
| "rsize (Alt a b) = Suc (rsize a + rsize b)"
| "rsize (Star a) = Suc (Suc (rsize a))"
| "rsize (Cap a) = Suc (Suc (rsize a))"
| "rsize r = 1"

fun fweight :: "nat \<Rightarrow> frame \<Rightarrow> nat" where
  "fweight pos (R r) = rsize r"
| "fweight pos (Loop a i) = (if i < pos then Suc (Suc (Suc (rsize a))) else 0)"
| "fweight pos (CapEnd i) = 1"

function rmatch :: "frame list \<Rightarrow> jsstring \<Rightarrow> mstate \<Rightarrow> mstate option" where
  "rmatch [] s st = Some st"
| "rmatch (R Eps # k) s st = rmatch k s st"
| "rmatch (R (Cls p) # k) s st =
     (if fst st < length s \<and> p (s ! fst st) then rmatch k s (Suc (fst st), snd st) else None)"
| "rmatch (R (Seq a b) # k) s st = rmatch (R a # R b # k) s st"
| "rmatch (R (Alt a b) # k) s st =
     (case rmatch (R a # k) s st of Some r \<Rightarrow> Some r | None \<Rightarrow> rmatch (R b # k) s st)"
| "rmatch (R (Star a) # k) s st =
     (case rmatch (R a # Loop a (fst st) # k) s st of Some r \<Rightarrow> Some r | None \<Rightarrow> rmatch k s st)"
| "rmatch (Loop a i # k) s st = (if i < fst st then rmatch (R (Star a) # k) s st else None)"
| "rmatch (R (Cap a) # k) s st = rmatch (R a # CapEnd (fst st) # k) s st"
| "rmatch (CapEnd i # k) s st = rmatch k s (fst st, Some (i, fst st))"
| "rmatch (R WordB # k) s st =
     (if wordBefore s (fst st) \<noteq> wordAt s (fst st) then rmatch k s st else None)"
| "rmatch (R Bol # k) s st = (if fst st = 0 then rmatch k s st else None)"
| "rmatch (R Eol # k) s st = (if fst st = length s then rmatch k s st else None)"
  by pat_completeness auto
termination
  by (relation "inv_image (less_than <*lex*> less_than)
        (\<lambda>(k, s, st). (length s - fst st, sum_list (map (fweight (fst st)) k)))") auto

text \<open>
  A match is its start index and its final state. \<open>firstMatch\<close> is \<open>exec\<close>, \<open>match\<close> and
  \<open>test\<close> of a regular expression without the \<open>g\<close> flag: the leftmost start index that
  matches.
\<close>

type_synonym rmatch_result = "nat \<times> mstate"

function firstMatch :: "regex \<Rightarrow> jsstring \<Rightarrow> nat \<Rightarrow> rmatch_result option" where
  "firstMatch r s i =
     (if length s < i then None
      else case rmatch [R r] s (i, None) of
             Some st \<Rightarrow> Some (i, st)
           | None \<Rightarrow> firstMatch r s (Suc i))"
  by pat_completeness auto
termination
  by (relation "measure (\<lambda>(r, s, i). Suc (length s) - i)") auto

declare firstMatch.simps [simp del]

text \<open>
  The loop \<^verbatim>\<open>while ((m = re.exec(s)) !== null) ...\<close> of a regular expression with the
  \<open>g\<close> flag, from \<open>lastIndex = i\<close>: all matches, each search starting where the last
  match ended. After an empty match \<open>lastIndex\<close> does not move, and the source's loop
  would find the same match for ever: \<open>NoReturn\<close>.
\<close>

function execAll :: "regex \<Rightarrow> jsstring \<Rightarrow> nat \<Rightarrow> js_error + rmatch_result list" where
  "execAll r s i =
     (if length s < i then Inr []
      else case rmatch [R r] s (i, None) of
             None \<Rightarrow> execAll r s (Suc i)
           | Some st \<Rightarrow>
               if i < fst st
               then (case execAll r s (fst st) of
                       Inl e \<Rightarrow> Inl e
                     | Inr ms \<Rightarrow> Inr ((i, st) # ms))
               else Inl NoReturn)"
  by pat_completeness auto
termination
  by (relation "measure (\<lambda>(r, s, i). Suc (length s) - i)") auto

declare execAll.simps [simp del]

text \<open>Building blocks: literal text, with and without the \<open>i\<close> flag, \<open>+\<close> and \<open>?\<close>.\<close>

definition asciiUpper :: "jschar \<Rightarrow> jschar" where
  "asciiUpper c = (if 97 \<le> c \<and> c \<le> 122 then c - 32 else c)"

definition lit :: "jschar \<Rightarrow> regex" where
  "lit c = Cls (\<lambda>x. x = c)"

definition litI :: "jschar \<Rightarrow> regex" where
  "litI c = Cls (\<lambda>x. asciiUpper x = asciiUpper c)"

fun seqs :: "regex list \<Rightarrow> regex" where
  "seqs [] = Eps"
| "seqs [r] = r"
| "seqs (r # rs) = Seq r (seqs rs)"

definition lits :: "string \<Rightarrow> regex" where
  "lits s = seqs (map lit (str s))"

definition litsI :: "string \<Rightarrow> regex" where
  "litsI s = seqs (map litI (str s))"

definition rplus :: "regex \<Rightarrow> regex" where
  "rplus r = Seq r (Star r)"

definition ropt :: "regex \<Rightarrow> regex" where
  "ropt r = Alt r Eps"

text \<open>The text of a match and of its captured group (\<open>m[0]\<close> and \<open>m[1]\<close>).\<close>

definition matched :: "jsstring \<Rightarrow> rmatch_result \<Rightarrow> jsstring" where
  "matched s m = take (fst (snd m) - fst m) (drop (fst m) s)"

definition group1 :: "jsstring \<Rightarrow> rmatch_result \<Rightarrow> jsstring option" where
  "group1 s m = (case snd (snd m) of None \<Rightarrow> None | Some (a, b) \<Rightarrow> Some (take (b - a) (drop a s)))"

text \<open>String methods, with JavaScript's treatment of indices.\<close>

definition clampIndex :: "jsstring \<Rightarrow> int \<Rightarrow> nat" where
  "clampIndex s i = (if i < 0 then 0 else min (nat i) (length s))"

definition substring :: "jsstring \<Rightarrow> int \<Rightarrow> int \<Rightarrow> jsstring" where
  "substring s a b =
     (let lo = min (clampIndex s a) (clampIndex s b); hi = max (clampIndex s a) (clampIndex s b)
      in take (hi - lo) (drop lo s))"

definition substringFrom :: "jsstring \<Rightarrow> int \<Rightarrow> jsstring" where
  "substringFrom s a = drop (clampIndex s a) s"

definition sliceInner :: "nat \<Rightarrow> jsstring \<Rightarrow> jsstring" where
  \<comment> \<open>\<open>s.slice(n, -1)\<close>\<close>
  "sliceInner n s = take (length s - 1 - n) (drop n s)"

definition startsWith :: "jsstring \<Rightarrow> jsstring \<Rightarrow> bool" where
  "startsWith s p = (take (length p) s = p)"

definition endsWith :: "jsstring \<Rightarrow> jsstring \<Rightarrow> bool" where
  "endsWith s p = (length p \<le> length s \<and> drop (length s - length p) s = p)"

function indexOfLoop :: "jsstring \<Rightarrow> jsstring \<Rightarrow> nat \<Rightarrow> int" where
  "indexOfLoop s p k =
     (if length s < k + length p then - 1
      else if take (length p) (drop k s) = p then int k
      else indexOfLoop s p (Suc k))"
  by pat_completeness auto
termination
  by (relation "measure (\<lambda>(s, p, k). Suc (length s) - k)") auto

declare indexOfLoop.simps [simp del]

definition indexOf :: "jsstring \<Rightarrow> jsstring \<Rightarrow> int \<Rightarrow> int" where
  "indexOf s p from = indexOfLoop s p (clampIndex s from)"

fun lastIndexOfChar :: "jsstring \<Rightarrow> jschar \<Rightarrow> int" where
  "lastIndexOfChar [] c = - 1"
| "lastIndexOfChar (x # xs) c =
     (let r = lastIndexOfChar xs c
      in if r \<noteq> - 1 then r + 1 else if x = c then 0 else - 1)"

definition trim :: "jsstring \<Rightarrow> jsstring" where
  "trim s = rev (dropWhile isSpace (rev (dropWhile isSpace s)))"

fun replaceDQ :: "jsstring \<Rightarrow> jsstring" where
  \<comment> \<open>\<open>s.replace(/""/g, '"')\<close>\<close>
  "replaceDQ [] = []"
| "replaceDQ [c] = [c]"
| "replaceDQ (c # d # cs) =
     (if c = 34 \<and> d = 34 then 34 # replaceDQ cs else c # replaceDQ (d # cs))"

definition replaceFirst :: "regex \<Rightarrow> jsstring \<Rightarrow> jsstring" where
  \<comment> \<open>\<open>s.replace(re, '')\<close> without the \<open>g\<close> flag\<close>
  "replaceFirst r s =
     (case firstMatch r s 0 of
        None \<Rightarrow> s
      | Some m \<Rightarrow> take (fst m) s @ drop (fst (snd m)) s)"

fun splitOn :: "(jschar \<Rightarrow> bool) \<Rightarrow> jsstring \<Rightarrow> jsstring list" where
  \<comment> \<open>\<open>s.split(re)\<close> for a class \<open>re\<close> of single characters\<close>
  "splitOn p [] = [[]]"
| "splitOn p (c # cs) =
     (if p c then [] # splitOn p cs
      else (case splitOn p cs of [] \<Rightarrow> [[c]] | w # ws \<Rightarrow> (c # w) # ws))"

definition setAdd :: "'a list \<Rightarrow> 'a \<Rightarrow> 'a list" where
  \<comment> \<open>\<open>Set.add\<close>, the set kept in insertion order as \<open>Array.from\<close> returns it\<close>
  "setAdd d x = (if x \<in> set d then d else d @ [x])"

definition jsBind :: "js_error + 'a \<Rightarrow> ('a \<Rightarrow> js_error + 'b) \<Rightarrow> js_error + 'b" where
  "jsBind m f = (case m of Inl e \<Rightarrow> Inl e | Inr v \<Rightarrow> f v)"

section \<open>Query source analyzer (app.js)\<close>

subsection \<open>\<open>stripCS\<close>: comments and string literals blanked out\<close>

text \<open>
  The source walks the text with an index; the functions below walk the remaining text.
  \<open>stripCS\<close> is the outer loop, the other four are the inner loops for \<open>#"..."\<close>, for a
  string literal, for a block comment and for a line comment. \<open>code[i + 1]\<close> past the
  end is \<open>undefined\<close> and equal to no character.
\<close>

definition nextIs :: "jsstring \<Rightarrow> jschar \<Rightarrow> bool" where
  "nextIs cs c = (case cs of [] \<Rightarrow> False | d # _ \<Rightarrow> d = c)"

function stripCS :: "jsstring \<Rightarrow> jsstring"
  and stripHashQuoted :: "jsstring \<Rightarrow> jsstring"
  and stripString :: "jsstring \<Rightarrow> jsstring"
  and stripBlock :: "jsstring \<Rightarrow> jsstring"
  and stripLine :: "jsstring \<Rightarrow> jsstring" where
  "stripCS [] = []"
| "stripCS (c # cs) =
     (if c = 35 \<and> nextIs cs 34 then 35 # 34 # stripHashQuoted (tl cs)
      else if c = 34 then 32 # stripString cs
      else if c = 47 \<and> nextIs cs 42 then 32 # 32 # stripBlock (tl cs)
      else if c = 47 \<and> nextIs cs 47 then stripLine (c # cs)
      else c # stripCS cs)"
| "stripHashQuoted [] = []"
| "stripHashQuoted (c # cs) =
     (if c = 34 \<and> nextIs cs 34 then 34 # 34 # stripHashQuoted (tl cs)
      else if c = 34 then 34 # stripCS cs
      else c # stripHashQuoted cs)"
| "stripString [] = []"
| "stripString (c # cs) =
     (if c = 34 \<and> nextIs cs 34 then 32 # 32 # stripString (tl cs)
      else if c = 34 then 32 # stripCS cs
      else (if c = 10 then 10 else 32) # stripString cs)"
| "stripBlock [] = []"
| "stripBlock (c # cs) =
     (if c = 42 \<and> nextIs cs 47 then 32 # 32 # stripCS (tl cs)
      else (if c = 10 then 10 else 32) # stripBlock cs)"
| "stripLine [] = []"
| "stripLine (c # cs) =
     (if c \<noteq> 10 then 32 # stripLine cs else stripCS (c # cs))"
  by pat_completeness auto
termination
  by (relation "measure (\<lambda>x. case x of
          Inl (Inl cs) \<Rightarrow> 3 * length cs + 1
        | Inl (Inr cs) \<Rightarrow> 3 * length cs
        | Inr (Inl cs) \<Rightarrow> 3 * length cs
        | Inr (Inr (Inl cs)) \<Rightarrow> 3 * length cs
        | Inr (Inr (Inr cs)) \<Rightarrow> 3 * length cs + (if nextIs cs 10 then 2 else 0))")
     (auto simp add: nextIs_def split: list.splits)

subsection \<open>The regular expressions of the analyzer\<close>

definition notQuote :: regex where
  "notQuote = Cls (\<lambda>c. c \<noteq> 34)"

definition quotedBody :: regex where
  \<comment> \<open>\<^verbatim>\<open>[^"]*(?:""[^"]*)*\<close>\<close>
  "quotedBody = Seq (Star notQuote) (Star (seqs [lit 34, lit 34, Star notQuote]))"

definition hashQuoted :: regex where
  \<comment> \<open>\<^verbatim>\<open>#"(?:[^"]*(?:""[^"]*)*)"\<close>\<close>
  "hashQuoted = seqs [lit 35, lit 34, quotedBody, lit 34]"

definition bareIdent :: regex where
  \<comment> \<open>\<^verbatim>\<open>[\w_][\w_]*\<close>\<close>
  "bareIdent = Seq (Cls isWordChar) (Star (Cls isWordChar))"

definition reShared :: regex where
  \<comment> \<open>\<^verbatim>\<open>/\bshared\s+(?:#"(?:[^"]*(?:""[^"]*)*)"|[\w_][\w_]*)\s*=/gi\<close>\<close>
  "reShared = seqs [WordB, litsI ''shared'', rplus (Cls isSpace), Alt hashQuoted bareIdent,
                    Star (Cls isSpace), lit 61]"

definition reSharedName :: regex where
  \<comment> \<open>\<^verbatim>\<open>/^shared\s+(#"(?:[^"]*(?:""[^"]*)*)"|[\w_][\w_]*)\s*=/i\<close>\<close>
  "reSharedName = seqs [Bol, litsI ''shared'', rplus (Cls isSpace), Cap (Alt hashQuoted bareIdent),
                        Star (Cls isSpace), lit 61]"

definition reLet :: regex where
  \<comment> \<open>\<^verbatim>\<open>/\blet\b/i\<close>\<close>
  "reLet = seqs [WordB, litsI ''let'', WordB]"

definition reIn :: regex where
  \<comment> \<open>\<^verbatim>\<open>/\bin\b/i\<close>\<close>
  "reIn = seqs [WordB, litsI ''in'', WordB]"

definition reIdent :: regex where
  \<comment> \<open>\<^verbatim>\<open>/\b([A-Za-z_][\w]*)\b/g\<close>\<close>
  "reIdent = seqs [WordB,
                   Cap (Seq (Cls (\<lambda>c. (65 \<le> c \<and> c \<le> 90) \<or> (97 \<le> c \<and> c \<le> 122) \<or> c = 95))
                            (Star (Cls isWordChar))),
                   WordB]"

definition reQuotedRef :: regex where
  \<comment> \<open>\<^verbatim>\<open>/#"((?:[^"]*(?:""[^"]*)*)?)"/g\<close>\<close>
  "reQuotedRef = seqs [lit 35, lit 34, Cap (ropt quotedBody), lit 34]"

definition reDigitStart :: regex where
  \<comment> \<open>\<^verbatim>\<open>/^\d/\<close>\<close>
  "reDigitStart = Seq Bol (Cls isDigit)"

definition reFileContents :: regex where
  \<comment> \<open>\<^verbatim>\<open>/(?:File|Folder)\.Contents\s*\(\s*(#"(?:[^"]*(?:""[^"]*)*)"|"(?:[^"]|"")*")\s*\)/gi\<close>\<close>
  "reFileContents =
     seqs [Alt (litsI ''File'') (litsI ''Folder''), litI 46, litsI ''Contents'',
           Star (Cls isSpace), litI 40, Star (Cls isSpace),
           Cap (Alt hashQuoted (seqs [lit 34, Star (Alt notQuote (Seq (lit 34) (lit 34))), lit 34])),
           Star (Cls isSpace), litI 41]"

definition reQueryFragment :: regex where
  \<comment> \<open>\<^verbatim>\<open>/[?#].*$/\<close>\<close>
  "reQueryFragment = seqs [Cls (\<lambda>c. c = 63 \<or> c = 35), Star (Cls (\<lambda>c. \<not> isLineTerminator c)), Eol]"

definition isSlash :: "jschar \<Rightarrow> bool" where
  \<comment> \<open>\<^verbatim>\<open>[\\\/]\<close>\<close>
  "isSlash c = (c = 92 \<or> c = 47)"

definition reTrailingSlashes :: regex where
  \<comment> \<open>\<^verbatim>\<open>/[\\\/]+$/\<close>\<close>
  "reTrailingSlashes = Seq (rplus (Cls isSlash)) Eol"

subsection \<open>\<open>findDeps\<close> and \<open>findExternalFileRefs\<close>\<close>

definition MKW :: "jsstring list" where
  "MKW = map str [
    ''let'', ''in'', ''if'', ''then'', ''else'', ''true'', ''false'', ''null'', ''and'',
    ''or'', ''not'', ''each'', ''error'', ''try'', ''otherwise'', ''type'', ''is'', ''as'',
    ''meta'', ''section'', ''shared'', ''Table'', ''List'', ''Record'', ''Text'',
    ''Number'', ''Date'', ''DateTime'', ''DateTimeZone'', ''Duration'', ''Time'',
    ''Function'', ''Binary'', ''Csv'', ''Json'', ''Xml'', ''Excel'', ''Sql'', ''OData'',
    ''Web'', ''File'', ''Folder'', ''Lines'', ''Splitter'', ''Comparer'', ''Combiner'',
    ''Replacer'', ''Expression'', ''Error'', ''Value'', ''Type'', ''Action'', ''Uri'',
    ''Byte'', ''Currency'', ''Percentage'', ''Int8'', ''Int16'', ''Int32'', ''Int64'',
    ''Single'', ''Double'', ''Decimal'', ''Logical'', ''Access'', ''ActiveDirectory'',
    ''AdobeAnalytics'', ''AdoDotNet'', ''AnalysisServices'', ''AzureStorage'', ''DB2'',
    ''Cube'', ''Diagnostics'', ''Exchange'', ''Facebook'', ''GoogleAnalytics'', ''Hdfs'',
    ''Informix'', ''MySQL'', ''Odbc'', ''OleDb'', ''Oracle'', ''PDF'', ''PostgreSQL'',
    ''Salesforce'', ''SapBusinessWarehouse'', ''SapHana'', ''SharePoint'', ''Sybase'',
    ''Teradata'', ''Power'', ''Any'', ''Source'', ''Navigation'', ''Data'', ''Schema'',
    ''Item'']"

text \<open>
  The first loop of \<open>findDeps\<close>: the text inside \<open>#"..."\<close> is blanked out, so that the
  plain-identifier scan does not split a quoted identifier.
\<close>

fun depScan :: "jsstring \<Rightarrow> jsstring"
  and depScanQuoted :: "jsstring \<Rightarrow> jsstring" where
  "depScan [] = []"
| "depScan (c # cs) =
     (if c = 35 \<and> nextIs cs 34 then 35 # 34 # depScanQuoted (tl cs)
      else c # depScan cs)"
| "depScanQuoted [] = []"
| "depScanQuoted (c # cs) =
     (if c = 34 \<and> nextIs cs 34 then 32 # 32 # depScanQuoted (tl cs)
      else if c = 34 then 34 # depScan cs
      else (if c = 10 then 10 else 32) # depScanQuoted cs)"

text \<open>The bodies of the two \<open>while\<close> loops over the matches, on the set \<open>d\<close>.\<close>

definition addIdent :: "jsstring \<Rightarrow> jsstring \<Rightarrow> jsstring list \<Rightarrow> rmatch_result \<Rightarrow> jsstring list" where
  "addIdent scan self d m =
     (case group1 scan m of
        None \<Rightarrow> d
      | Some ident \<Rightarrow>
          if ident \<noteq> self \<and> ident \<notin> set MKW \<and> firstMatch reDigitStart ident 0 = None
             \<and> \<not> (fst m + length ident < length scan \<and> scan ! (fst m + length ident) = 46)
          then setAdd d ident else d)"

definition addQuoted :: "jsstring \<Rightarrow> jsstring \<Rightarrow> jsstring list \<Rightarrow> rmatch_result \<Rightarrow> jsstring list" where
  "addQuoted sc self d m =
     (case group1 sc m of
        None \<Rightarrow> d
      | Some g \<Rightarrow> if replaceDQ g \<noteq> self then setAdd d (replaceDQ g) else d)"

definition findDeps :: "jsstring \<Rightarrow> jsstring \<Rightarrow> js_error + jsstring list" where
  "findDeps sc self =
     jsBind (execAll reIdent (depScan sc) 0) (\<lambda>ids.
     jsBind (execAll reQuotedRef sc 0) (\<lambda>qs.
       Inr (foldl (addQuoted sc self) (foldl (addIdent (depScan sc) self) [] ids) qs)))"

definition addFileRef :: "jsstring \<Rightarrow> jsstring list \<Rightarrow> rmatch_result \<Rightarrow> jsstring list" where
  "addFileRef code refs m =
     (case group1 code m of
        None \<Rightarrow> refs
      | Some l \<Rightarrow>
          let p = (if startsWith l (str ''#\"'') then replaceDQ (sliceInner 2 l)
                   else replaceDQ (sliceInner 1 l));
              s = splitOn isSlash (replaceFirst reTrailingSlashes (replaceFirst reQueryFragment p));
              base = (if last s \<noteq> [] then last s else p)
          in if base \<noteq> [] then setAdd refs base else refs)"

definition findExternalFileRefs :: "jsstring \<Rightarrow> js_error + jsstring list" where
  "findExternalFileRefs code =
     jsBind (execAll reFileContents code 0) (\<lambda>ms. Inr (foldl (addFileRef code) [] ms))"

subsection \<open>\<open>parseMCodeFile\<close>\<close>

record query =
  name :: jsstring
  code :: jsstring
  fileName :: jsstring
  dependencies :: "jsstring list"
  externalRefs :: "jsstring list"

definition stripBOM :: "jsstring \<Rightarrow> jsstring" where
  \<comment> \<open>a leading byte-order mark U+FEFF is removed\<close>
  "stripBOM s = (case s of [] \<Rightarrow> [] | c # cs \<Rightarrow> if c = 0xFEFF then cs else s)"

text \<open>
  The body of the loop over the \<open>shared\<close> positions, for the segment from \<open>s\<close> to \<open>e\<close>:
  \<open>None\<close> is the \<open>continue\<close> of a chunk that does not start with a declaration.
\<close>

definition parseSegment :: "jsstring \<Rightarrow> jsstring \<Rightarrow> jsstring \<Rightarrow> nat \<Rightarrow> nat \<Rightarrow> js_error + query option" where
  "parseSegment code' stripped fn s e =
     (let chunk = substring code' (int s) (int e); sc = substring stripped (int s) (int e)
      in case firstMatch reSharedName chunk 0 of
           None \<Rightarrow> Inr None
         | Some nm \<Rightarrow>
             (case group1 chunk nm of
                None \<Rightarrow> Inl TypeError
              | Some nm1 \<Rightarrow>
                  let name' = (if startsWith nm1 (str ''#\"'') then replaceDQ (sliceInner 2 nm1) else nm1);
                      eq = indexOf chunk [61] (indexOf chunk nm1 0 + int (length nm1));
                      sb = substringFrom sc (eq + 1);
                      ls = lastIndexOfChar sb 59;
                      qc = (if ls \<noteq> - 1 then trim (substring chunk (eq + 1) ((eq + 1) + ls))
                            else trim (substringFrom chunk (eq + 1)))
                  in jsBind (findDeps (stripCS qc) name') (\<lambda>deps.
                     jsBind (findExternalFileRefs qc) (\<lambda>refs.
                       Inr (Some \<lparr>name = name', code = qc, fileName = fn,
                                   dependencies = deps, externalRefs = refs\<rparr>)))))"

fun parseSegments :: "jsstring \<Rightarrow> jsstring \<Rightarrow> jsstring \<Rightarrow> nat list \<Rightarrow> js_error + query list" where
  "parseSegments code' stripped fn [] = Inr []"
| "parseSegments code' stripped fn (s # rest) =
     jsBind (parseSegment code' stripped fn s (case rest of [] \<Rightarrow> length code' | e # _ \<Rightarrow> e)) (\<lambda>q.
     jsBind (parseSegments code' stripped fn rest) (\<lambda>qs.
       Inr (case q of None \<Rightarrow> qs | Some x \<Rightarrow> x # qs)))"

definition parseMCodeFile :: "jsstring \<Rightarrow> jsstring \<Rightarrow> js_error + query list" where
  "parseMCodeFile mCode fn =
     (let code' = stripBOM mCode; stripped = stripCS code'
      in jsBind (execAll reShared stripped 0) (\<lambda>ms.
         jsBind (parseSegments code' stripped fn (map fst ms)) (\<lambda>q.
           if q = [] \<and> firstMatch reLet stripped 0 \<noteq> None \<and> firstMatch reIn stripped 0 \<noteq> None
           then jsBind (findDeps stripped (str ''Query1'')) (\<lambda>deps.
                jsBind (findExternalFileRefs mCode) (\<lambda>refs.
                  Inr [\<lparr>name = str ''Query1'', code = trim mCode, fileName = fn,
                        dependencies = deps, externalRefs = refs\<rparr>]))
           else Inr q)))"

section \<open>Container format resolver (app.js)\<close>

text \<open>
  The archive reader (JSZip) is not part of the repository. A call into it either
  gives a value or throws: its results are \<open>jsstring + 'a\<close>, with \<open>Inl\<close> the message
  of the error thrown. \<open>loadAsync\<close> is a parameter of the functions that open an
  archive; an opened archive is the list of its entries in the order of
  \<open>Object.entries(zip.files)\<close>, each with what its \<open>async\<close> reads give.
\<close>

type_synonym byte = "8 word"

record zip_entry =
  zpath :: jsstring
  zdir :: bool
  asyncString :: "jsstring + jsstring"
  asyncArrayBuffer :: "jsstring + byte list"

type_synonym zip_loader = "byte list \<Rightarrow> jsstring + zip_entry list"

definition lib :: "jsstring + 'a \<Rightarrow> js_error + 'a" where
  "lib r = (case r of Inl msg \<Rightarrow> Inl (Error msg) | Inr v \<Rightarrow> Inr v)"

text \<open>
  \<^verbatim>\<open>try { q = m } catch (e) { }\<close>: an exception leaves the default; a computation that
  does not return is not caught.
\<close>

definition tryCatch :: "js_error + 'a \<Rightarrow> 'a \<Rightarrow> js_error + 'a" where
  "tryCatch m d = (case m of Inl NoReturn \<Rightarrow> Inl NoReturn | Inl e \<Rightarrow> Inr d | Inr v \<Rightarrow> Inr v)"

text \<open>\<open>readU32\<close>: a byte read past the end is \<open>undefined\<close>, which the bit operators take as 0.\<close>

definition js_byte :: "byte list \<Rightarrow> nat \<Rightarrow> 32 word" where
  "js_byte b o' = (if o' < length b then ucast (b ! o') else 0)"

definition readU32 :: "byte list \<Rightarrow> nat \<Rightarrow> 32 word" where
  "readU32 b o' =
     js_byte b o' OR push_bit 8 (js_byte b (o' + 1)) OR push_bit 16 (js_byte b (o' + 2))
       OR push_bit 24 (js_byte b (o' + 3))"

function findPKLoop :: "byte list \<Rightarrow> nat \<Rightarrow> int" where
  "findPKLoop b i =
     (if int i < int (length b) - 4
      then (if b ! i = 0x50 \<and> b ! (i + 1) = 0x4B \<and> b ! (i + 2) = 0x03 \<and> b ! (i + 3) = 0x04
            then int i else findPKLoop b (Suc i))
      else - 1)"
  by pat_completeness auto
termination
  by (relation "measure (\<lambda>(b, i). length b - i)") auto

declare findPKLoop.simps [simp del]

definition findPK :: "byte list \<Rightarrow> int" where
  "findPK b = findPKLoop b 0"

text \<open>
  The key of the \<open>seen\<close> sets, \<open>q.fileName + '::' + q.name\<close>, and the loop that adds the
  queries whose key was not seen yet. The state is the list \<open>queries\<close> and the set
  \<open>seen\<close>.
\<close>

definition queryKey :: "query \<Rightarrow> jsstring" where
  "queryKey q = fileName q @ str ''::'' @ name q"

definition addUniqueOne :: "query list \<times> jsstring set \<Rightarrow> query \<Rightarrow> query list \<times> jsstring set" where
  "addUniqueOne st q =
     (if queryKey q \<in> snd st then st else (fst st @ [q], insert (queryKey q) (snd st)))"

definition addUnique :: "query list \<times> jsstring set \<Rightarrow> query list \<Rightarrow> query list \<times> jsstring set" where
  "addUnique st nq = foldl addUniqueOne st nq"

fun extractMCodeFromZipLoop ::
  "jsstring \<Rightarrow> zip_entry list \<Rightarrow> query list \<times> jsstring set \<Rightarrow> js_error + query list \<times> jsstring set" where
  "extractMCodeFromZipLoop fn [] st = Inr st"
| "extractMCodeFromZipLoop fn (e # es) st =
     (if startsWith (zpath e) (str ''Formulas/'') \<and> endsWith (zpath e) (str ''.m'') \<and> \<not> zdir e
      then jsBind (tryCatch (jsBind (jsBind (lib (asyncString e)) (\<lambda>txt. parseMCodeFile txt fn))
                                    (\<lambda>xs. Inr (addUnique st xs))) st)
                  (extractMCodeFromZipLoop fn es)
      else extractMCodeFromZipLoop fn es st)"

definition extractMCodeFromZip :: "zip_entry list \<Rightarrow> jsstring \<Rightarrow> js_error + query list" where
  "extractMCodeFromZip z fn =
     jsBind (extractMCodeFromZipLoop fn z ([], {})) (\<lambda>st. Inr (fst st))"

definition extractFromDataMashup :: "zip_loader \<Rightarrow> byte list \<Rightarrow> jsstring \<Rightarrow> js_error + query list" where
  "extractFromDataMashup loadAsync b fn =
     (if length b < 8 then Inr []
      else
        jsBind (tryCatch
                 (let v = readU32 b 0; n = readU32 b 4
                  in if v = 0 \<and> 0 < n \<and> int (unat n) \<le> int (length b) - 8
                     then jsBind (lib (loadAsync (take (unat n) (drop 8 b))))
                                 (\<lambda>z. extractMCodeFromZip z fn)
                     else Inr [])
                 [])
          (\<lambda>q. if q = []
                then (let s = findPK b
                      in if 0 \<le> s
                         then tryCatch (jsBind (lib (loadAsync (drop (nat s) b)))
                                               (\<lambda>z. extractMCodeFromZip z fn)) []
                         else Inr [])
                else Inr q))"

subsection \<open>\<open>parseXlsxFile\<close> and \<open>parsePbixFile\<close>\<close>

text \<open>
  Both take the opened container. The extraction paths that need collaborators outside
  the repository (XML decoding and base64, the DOM parser, JSON, the compiled
  decompressor) are parameters: functions from the bytes or text of an entry and the
  file name to the queries found or the exception thrown. The result is the pair of the
  query list and the errors recorded (the entry and the exception).
\<close>

type_synonym bytes_path = "byte list \<Rightarrow> jsstring \<Rightarrow> js_error + query list"
type_synonym text_path = "jsstring \<Rightarrow> jsstring \<Rightarrow> js_error + query list"

record parse_state =
  queries :: "query list"
  seen :: "jsstring set"
  errors :: "(jsstring \<times> js_error) list"

definition addUniqueTo :: "parse_state \<Rightarrow> query list \<Rightarrow> parse_state" where
  "addUniqueTo st nq =
     (let r = addUnique (queries st, seen st) nq in st\<lparr>queries := fst r, seen := snd r\<rparr>)"

text \<open>
  \<^verbatim>\<open>try { addUnique(m) } catch (e) { errors.push(p + ': ' + e.message) }\<close>, and the same
  with an empty \<open>catch\<close>.
\<close>

definition tryAdd :: "jsstring \<Rightarrow> parse_state \<Rightarrow> js_error + query list \<Rightarrow> js_error + parse_state" where
  "tryAdd p st m =
     (case m of
        Inl NoReturn \<Rightarrow> Inl NoReturn
      | Inl e \<Rightarrow> Inr (st\<lparr>errors := errors st @ [(p, e)]\<rparr>)
      | Inr nq \<Rightarrow> Inr (addUniqueTo st nq))"

definition tryAddQuiet :: "parse_state \<Rightarrow> js_error + query list \<Rightarrow> js_error + parse_state" where
  "tryAddQuiet st m =
     (case m of
        Inl NoReturn \<Rightarrow> Inl NoReturn
      | Inl e \<Rightarrow> Inr st
      | Inr nq \<Rightarrow> Inr (addUniqueTo st nq))"

definition reCustomXmlItem :: regex where
  \<comment> \<open>\<^verbatim>\<open>/customXml\/item\d*\.xml$/i\<close>\<close>
  "reCustomXmlItem = seqs [litsI ''customXml/item'', Star (Cls isDigit), litI 46, litsI ''xml'', Eol]"

fun xlsxBinLoop :: "zip_loader \<Rightarrow> jsstring \<Rightarrow> zip_entry list \<Rightarrow> parse_state \<Rightarrow> js_error + parse_state" where
  "xlsxBinLoop loadAsync fname [] st = Inr st"
| "xlsxBinLoop loadAsync fname (e # es) st =
     (if startsWith (zpath e) (str ''customXml/'') \<and> endsWith (zpath e) (str ''.bin'')
      then jsBind (tryAdd (zpath e) st
                     (jsBind (lib (asyncArrayBuffer e)) (\<lambda>buf. extractFromDataMashup loadAsync buf fname)))
                  (xlsxBinLoop loadAsync fname es)
      else xlsxBinLoop loadAsync fname es st)"

fun xlsxXmlLoop :: "bytes_path \<Rightarrow> jsstring \<Rightarrow> zip_entry list \<Rightarrow> parse_state \<Rightarrow> js_error + parse_state" where
  "xlsxXmlLoop fromCustomXml fname [] st = Inr st"
| "xlsxXmlLoop fromCustomXml fname (e # es) st =
     (if firstMatch reCustomXmlItem (zpath e) 0 \<noteq> None
      then jsBind (tryAddQuiet st
                     (jsBind (lib (asyncArrayBuffer e)) (\<lambda>buf. fromCustomXml buf fname)))
                  (xlsxXmlLoop fromCustomXml fname es)
      else xlsxXmlLoop fromCustomXml fname es st)"

definition zipFile :: "zip_entry list \<Rightarrow> jsstring \<Rightarrow> zip_entry option" where
  \<comment> \<open>\<open>zip.files[p]\<close>\<close>
  "zipFile files p = find (\<lambda>e. zpath e = p) files"

definition xlsxConnections :: "text_path \<Rightarrow> zip_entry list \<Rightarrow> jsstring \<Rightarrow> parse_state \<Rightarrow> js_error + parse_state" where
  \<comment> \<open>the last resort: \<open>xl/connections.xml\<close>, only when no query was found\<close>
  "xlsxConnections parseConnectionsXml files fname st =
     (case zipFile files (str ''xl/connections.xml'') of
        Some e \<Rightarrow>
          if queries st = []
          then tryAdd (str ''connections.xml'') st
                 (jsBind (lib (asyncString e)) (\<lambda>xml. parseConnectionsXml xml fname))
          else Inr st
      | None \<Rightarrow> Inr st)"

definition parseXlsxFile ::
  "zip_loader \<Rightarrow> bytes_path \<Rightarrow> text_path \<Rightarrow> zip_entry list \<Rightarrow> jsstring \<Rightarrow> js_error + parse_state" where
  "parseXlsxFile loadAsync fromCustomXml parseConnectionsXml files fname =
     jsBind (xlsxBinLoop loadAsync fname files \<lparr>queries = [], seen = {}, errors = []\<rparr>) (\<lambda>st1.
     jsBind (xlsxXmlLoop fromCustomXml fname files st1) (\<lambda>st2.
       xlsxConnections parseConnectionsXml files fname st2))"

text \<open>The three paths of \<open>parsePbixFile\<close>, in the order of the source.\<close>

definition pbixDataMashup :: "zip_loader \<Rightarrow> zip_entry list \<Rightarrow> jsstring \<Rightarrow> js_error + parse_state" where
  \<comment> \<open>Path 1: \<open>DataMashup\<close> as a top-level file\<close>
  "pbixDataMashup loadAsync files fname =
     (case (case zipFile files (str ''DataMashup'') of
              Some e \<Rightarrow> Some e
            | None \<Rightarrow> zipFile files (str ''datamashup'')) of
        Some dmEntry \<Rightarrow>
          tryAdd (str ''DataMashup'') \<lparr>queries = [], seen = {}, errors = []\<rparr>
            (jsBind (lib (asyncArrayBuffer dmEntry))
                    (\<lambda>buf. extractFromDataMashup loadAsync buf fname))
      | None \<Rightarrow> Inr \<lparr>queries = [], seen = {}, errors = []\<rparr>)"

definition pbixDataModelSchema :: "bytes_path \<Rightarrow> zip_entry list \<Rightarrow> jsstring \<Rightarrow> parse_state \<Rightarrow> js_error + parse_state" where
  \<comment> \<open>Path 2: \<open>DataModelSchema\<close>, only when no query was found\<close>
  "pbixDataModelSchema extractFromDataModelSchema files fname st =
     (if queries st = []
      then (case zipFile files (str ''DataModelSchema'') of
              Some schemaEntry \<Rightarrow>
                tryAdd (str ''DataModelSchema'') st
                  (jsBind (lib (asyncArrayBuffer schemaEntry))
                          (\<lambda>buf. extractFromDataModelSchema buf fname))
            | None \<Rightarrow> Inr st)
      else Inr st)"

definition pbixDataModel :: "bytes_path option \<Rightarrow> zip_entry list \<Rightarrow> jsstring \<Rightarrow> parse_state \<Rightarrow> js_error + parse_state" where
  \<comment> \<open>Path 3: the compressed \<open>DataModel\<close>, only when no query was found; the decoder
      script may be absent (\<open>None\<close>)\<close>
  "pbixDataModel extractFromDataModel files fname st =
     (if queries st = []
      then (case zipFile files (str ''DataModel'') of
              None \<Rightarrow> Inr st
            | Some dmEntry \<Rightarrow>
                (case extractFromDataModel of
                   Some f \<Rightarrow>
                     tryAdd (str ''DataModel'') st
                       (jsBind (lib (asyncArrayBuffer dmEntry)) (\<lambda>dmData. f dmData fname))
                 | None \<Rightarrow>
                     Inr (st\<lparr>errors := errors st @
                       [(str ''DataModel'',
                         Error (str ''DataModel decoder not available. This file uses compressed V3 format.''))]\<rparr>)))
      else Inr st)"

definition parsePbixFile ::
  "zip_loader \<Rightarrow> bytes_path \<Rightarrow> bytes_path option \<Rightarrow> zip_entry list \<Rightarrow> jsstring \<Rightarrow> js_error + parse_state" where
  "parsePbixFile loadAsync extractFromDataModelSchema extractFromDataModel files fname =
     jsBind (pbixDataMashup loadAsync files fname) (\<lambda>st1.
     jsBind (pbixDataModelSchema extractFromDataModelSchema files fname st1) (\<lambda>st2.
       pbixDataModel extractFromDataModel files fname st2))"

subsection \<open>The queries built by the data-model paths\<close>

text \<open>
  \<open>extractFromDataModelSchema\<close> (app.js) pushes, for each table partition or top-level
  expression that it keeps, the object built by \<open>schemaQuery\<close> from the name and the
  expression text; the loops around it (over the parsed JSON) only choose the two.
\<close>

definition schemaQuery :: "jsstring \<Rightarrow> jsstring \<Rightarrow> jsstring \<Rightarrow> js_error + query" where
  "schemaQuery name' expr fn =
     jsBind (findDeps (stripCS expr) name') (\<lambda>deps.
     jsBind (findExternalFileRefs expr) (\<lambda>refs.
       Inr \<lparr>name = name', code = trim expr, fileName = fn,
            dependencies = deps, externalRefs = refs\<rparr>))"

text \<open>
  \<open>extractFromDataModel\<close> (the decoder script) maps every entry read from the catalog
  to a query. An entry's \<open>name\<close> and \<open>mCode\<close> are strings or some other value
  (\<open>None\<close>).
\<close>

record model_entry =
  entryName :: "jsstring option"
  entryMCode :: "jsstring option"

definition dataModelQuery :: "model_entry \<Rightarrow> jsstring \<Rightarrow> js_error + query" where
  "dataModelQuery e fn =
     (let name' = (case entryName e of
                     Some n \<Rightarrow> if trim n \<noteq> [] then n else str ''Query''
                   | None \<Rightarrow> str ''Query'');
          code' = (case entryMCode e of Some c \<Rightarrow> c | None \<Rightarrow> [])
      in jsBind (findDeps (stripCS code') name') (\<lambda>deps.
         jsBind (findExternalFileRefs code') (\<lambda>refs.
           Inr \<lparr>name = name', code = code', fileName = fn,
                dependencies = deps, externalRefs = refs\<rparr>)))"

subsection \<open>Notions used to state the properties\<close>

text \<open>The local-file-header signature \<open>50 4B 03 04\<close> of the archive format at offset \<open>i\<close>.\<close>

definition signatureAt :: "byte list \<Rightarrow> nat \<Rightarrow> bool" where
  "signatureAt b i =
     (i + 3 < length b \<and> b ! i = 0x50 \<and> b ! (i + 1) = 0x4B \<and> b ! (i + 2) = 0x03 \<and> b ! (i + 3) = 0x04)"

text \<open>
  Merging as the data model words it: of the queries with one key, the first is kept
  and the later ones are discarded.
\<close>

fun keepFirstByKey :: "query list \<Rightarrow> query list" where
  "keepFirstByKey [] = []"
| "keepFirstByKey (q # qs) = q # keepFirstByKey (filter (\<lambda>x. queryKey x \<noteq> queryKey q) qs)"

text \<open>
  The invariant of the \<open>addUnique\<close> loops: \<open>seen\<close> holds exactly the keys of the
  queries collected, and no two of them have the same key.
\<close>

definition keysOk :: "parse_state \<Rightarrow> bool" where
  "keysOk st = (seen st = queryKey ` set (queries st) \<and> distinct (map queryKey (queries st)))"

text \<open>
  The queries that the extraction paths hand to \<open>addUnique\<close>, in the order in which the
  paths are tried, with nothing removed: a path that throws hands over nothing; the
  paths that are tried only when no query has been found so far
  (\<^verbatim>\<open>if (queries.length === 0 && ...)\<close>, \<^verbatim>\<open>if (!queries.length)\<close>) contribute only then.
  \<open>collected\<close> says that the state holds, of the queries produced, the first of each key.
\<close>

definition pathQueries :: "js_error + query list \<Rightarrow> query list" where
  "pathQueries m = (case m of Inl e \<Rightarrow> [] | Inr nq \<Rightarrow> nq)"

definition xlsxBinQueries :: "zip_loader \<Rightarrow> jsstring \<Rightarrow> zip_entry list \<Rightarrow> query list" where
  "xlsxBinQueries loadAsync fname files =
     concat (map (\<lambda>e. pathQueries (jsBind (lib (asyncArrayBuffer e))
                                      (\<lambda>buf. extractFromDataMashup loadAsync buf fname)))
                 (filter (\<lambda>e. startsWith (zpath e) (str ''customXml/'') \<and> endsWith (zpath e) (str ''.bin''))
                         files))"

definition xlsxXmlQueries :: "bytes_path \<Rightarrow> jsstring \<Rightarrow> zip_entry list \<Rightarrow> query list" where
  "xlsxXmlQueries fromCustomXml fname files =
     concat (map (\<lambda>e. pathQueries (jsBind (lib (asyncArrayBuffer e)) (\<lambda>buf. fromCustomXml buf fname)))
                 (filter (\<lambda>e. firstMatch reCustomXmlItem (zpath e) 0 \<noteq> None) files))"

definition xlsxProduced ::
  "zip_loader \<Rightarrow> bytes_path \<Rightarrow> text_path \<Rightarrow> zip_entry list \<Rightarrow> jsstring \<Rightarrow> query list" where
  "xlsxProduced loadAsync fromCustomXml parseConnectionsXml files fname =
     (let found = xlsxBinQueries loadAsync fname files @ xlsxXmlQueries fromCustomXml fname files
      in if found \<noteq> [] then found
         else (case zipFile files (str ''xl/connections.xml'') of
                 Some e \<Rightarrow> pathQueries (jsBind (lib (asyncString e)) (\<lambda>xml. parseConnectionsXml xml fname))
               | None \<Rightarrow> []))"

definition pbixProduced ::
  "zip_loader \<Rightarrow> bytes_path \<Rightarrow> bytes_path option \<Rightarrow> zip_entry list \<Rightarrow> jsstring \<Rightarrow> query list" where
  "pbixProduced loadAsync extractFromDataModelSchema extractFromDataModel files fname =
     (let p1 = (case (case zipFile files (str ''DataMashup'') of
                        Some e \<Rightarrow> Some e
                      | None \<Rightarrow> zipFile files (str ''datamashup'')) of
                  Some dmEntry \<Rightarrow>
                    pathQueries (jsBind (lib (asyncArrayBuffer dmEntry))
                                   (\<lambda>buf. extractFromDataMashup loadAsync buf fname))
                | None \<Rightarrow> []);
          p2 = (case zipFile files (str ''DataModelSchema'') of
                  Some schemaEntry \<Rightarrow>
                    pathQueries (jsBind (lib (asyncArrayBuffer schemaEntry))
                                   (\<lambda>buf. extractFromDataModelSchema buf fname))
                | None \<Rightarrow> []);
          p3 = (case zipFile files (str ''DataModel'') of
                  Some dmEntry \<Rightarrow>
                    (case extractFromDataModel of
                       Some f \<Rightarrow> pathQueries (jsBind (lib (asyncArrayBuffer dmEntry))
                                                (\<lambda>dmData. f dmData fname))
                     | None \<Rightarrow> [])
                | None \<Rightarrow> [])
      in if p1 \<noteq> [] then p1 else if p2 \<noteq> [] then p2 else p3)"

definition collected :: "parse_state \<Rightarrow> query list \<Rightarrow> bool" where
  "collected st produced =
     (queries st = keepFirstByKey produced \<and> seen st = queryKey ` set produced)"

text \<open>
  The least number of characters a regular expression consumes, by its structure.
\<close>

fun rmin :: "regex \<Rightarrow> nat" where
  "rmin (Cls p) = 1"
| "rmin (Seq a b) = rmin a + rmin b"
| "rmin (Alt a b) = min (rmin a) (rmin b)"
| "rmin (Cap a) = rmin a"
| "rmin r = 0"

fun fmin :: "frame \<Rightarrow> nat" where
  "fmin (R r) = rmin r"
| "fmin f = 0"

subsection \<open>Concrete inputs\<close>

text \<open>
  A malformed envelope: version 0, a length field of \<open>0x7FFFFFFF\<close> in a buffer of 26
  bytes, and the archive signature 12 bytes after the 8-byte header. The archive reader
  used with it opens every buffer that starts with the signature as the archive with
  the one entry \<open>Formulas/Section1.m\<close>, of text \<open>shared A = 1;\<close>.
\<close>

definition sampleMashup :: "byte list" where
  "sampleMashup =
     [0, 0, 0, 0, 0xFF, 0xFF, 0xFF, 0x7F, 0, 0, 0, 0, 0, 0, 0, 0, 0, 0, 0, 0,
      0x50, 0x4B, 0x03, 0x04, 1, 2]"

definition sampleLoader :: zip_loader where
  "sampleLoader x =
     (if take 4 x = [0x50, 0x4B, 0x03, 0x04]
      then Inr [\<lparr>zpath = str ''Formulas/Section1.m'', zdir = False,
                 asyncString = Inr (str ''shared A = 1;''), asyncArrayBuffer = Inl []\<rparr>]
      else Inl (str ''not an archive''))"

text \<open>
  A spreadsheet container whose binary part holds that envelope and whose XML part
  yields, through the custom-XML path, a second query \<open>A\<close> and a query \<open>B\<close>; and a
  BI package with the envelope as its \<open>DataMashup\<close> entry.
\<close>

definition sampleXlsx :: "zip_entry list" where
  "sampleXlsx =
     [\<lparr>zpath = str ''customXml/item1.bin'', zdir = False,
       asyncString = Inl [], asyncArrayBuffer = Inr sampleMashup\<rparr>,
      \<lparr>zpath = str ''customXml/item2.xml'', zdir = False,
       asyncString = Inl [], asyncArrayBuffer = Inr []\<rparr>]"

definition sampleCustomXml :: bytes_path where
  "sampleCustomXml buf fn =
     Inr [\<lparr>name = str ''A'', code = str ''2'', fileName = fn, dependencies = [], externalRefs = []\<rparr>,
          \<lparr>name = str ''B'', code = str ''3'', fileName = fn, dependencies = [], externalRefs = []\<rparr>]"

definition samplePbix :: "zip_entry list" where
  "samplePbix =
     [\<lparr>zpath = str ''DataMashup'', zdir = False,
       asyncString = Inl [], asyncArrayBuffer = Inr sampleMashup\<rparr>]"

text \<open>
  A BI template whose only part is \<open>DataModelSchema\<close>, and a schema path that yields the
  queries \<open>A\<close>, \<open>B\<close> and a second \<open>A\<close>.
\<close>

definition sampleSchemaPath :: bytes_path where
  "sampleSchemaPath buf fn =
     Inr [\<lparr>name = str ''A'', code = str ''2'', fileName = fn, dependencies = [], externalRefs = []\<rparr>,
          \<lparr>name = str ''B'', code = str ''3'', fileName = fn, dependencies = [], externalRefs = []\<rparr>,
          \<lparr>name = str ''A'', code = str ''4'', fileName = fn, dependencies = [], externalRefs = []\<rparr>]"

definition samplePbit :: "zip_entry list" where
  "samplePbit =
     [\<lparr>zpath = str ''DataModelSchema'', zdir = False,
       asyncString = Inl [], asyncArrayBuffer = Inr []\<rparr>]"

section \<open>Minimal relational page reader: record decoding (the decoder script)\<close>

text \<open>
  The numbers of this reader are doubles that hold integers, or \<open>NaN\<close>: arithmetic on
  integers is exact below \<open>2 ^ 53\<close> and rounded to the nearest double above
  (\<open>roundInt\<close>). A typed-array read past the end gives \<open>undefined\<close>, which is 0 under
  the bit operators and turns a sum into \<open>NaN\<close>.
\<close>

definition roundInt :: "int \<Rightarrow> int" where
  "roundInt x = (if 0 \<le> x then int (toNumber (nat x)) else - int (toNumber (nat (- x))))"

definition byteOr0 :: "byte list \<Rightarrow> nat \<Rightarrow> byte" where
  "byteOr0 d k = (if k < length d then d ! k else 0)"

text \<open>
  \<open>readVarint\<close>: up to eight bytes of seven bits, then a ninth byte of eight bits. The
  result is the value (\<open>None\<close> is \<open>NaN\<close>) and the number of bytes read.
\<close>

function readVarintFrom :: "byte list \<Rightarrow> nat \<Rightarrow> nat \<Rightarrow> nat \<Rightarrow> nat option \<times> nat" where
  "readVarintFrom d pos i result =
     (if i < 8
      then (let b = byteOr0 d (pos + i);
                result' = toNumber (result * 128 + unat (b AND 0x7f))
            in if b AND 0x80 = 0 then (Some result', i + 1)
               else readVarintFrom d pos (Suc i) result')
      else (if pos + 8 < length d
            then (Some (toNumber (result * 256 + unat (d ! (pos + 8)))), 9)
            else (None, 9)))"
  by pat_completeness auto
termination
  by (relation "measure (\<lambda>(d, pos, i, result). 8 - i)") auto

declare readVarintFrom.simps [simp del]

definition readVarint :: "byte list \<Rightarrow> nat \<Rightarrow> nat option \<times> nat" where
  "readVarint d pos = readVarintFrom d pos 0 0"

text \<open>
  The values of a record: null, an integer or \<open>NaN\<close>, the eight bytes of a double, a
  blob, and the bytes of a text (decoded as UTF-8 by the platform).
\<close>

datatype sqlval = VNull | VInt int | VNaN | VFloat "byte list" | VBlob "byte list" | VText "byte list"

text \<open>
  The header loop \<^verbatim>\<open>while (pos < headerLen) { ...; types.push(st); pos += sn; }\<close>. With
  \<open>headerLen\<close> \<open>NaN\<close> the comparison is false and the loop is not entered (see
  \<open>parseRecord\<close>). Every varint takes at least one byte, so the loop ends.
\<close>

function typesLoop :: "byte list \<Rightarrow> nat \<Rightarrow> nat \<Rightarrow> nat option list \<Rightarrow> nat option list" where
  "typesLoop d headerLen pos types =
     (if pos < headerLen
      then typesLoop d headerLen (pos + snd (readVarint d pos)) (types @ [fst (readVarint d pos)])
      else types)"
  by pat_completeness auto
termination
proof (relation "measure (\<lambda>(d, headerLen, pos, types). headerLen - pos)", goal_cases)
  case 1
  show ?case by simp
next
  case (2 d headerLen pos types)
  have "0 < snd (readVarintFrom d' pos' i r)" for d' pos' i r
  proof (induction d' pos' i r rule: readVarintFrom.induct)
    case (1 d' pos' i r)
    then show ?case
      by (subst readVarintFrom.simps) (simp add: Let_def)
  qed
  then have "0 < snd (readVarint d pos)"
    by (simp add: readVarint_def)
  with 2 show ?case
    by simp
qed

declare typesLoop.simps [simp del]

text \<open>
  The integer of serial types 1 to 6: \<open>len\<close> bytes, most significant first, then
  \<^verbatim>\<open>if (len > 0 && payload[dPos] & 0x80) val -= (1 << (len * 8));\<close>
\<close>

function readIntLoop :: "byte list \<Rightarrow> nat \<Rightarrow> nat \<Rightarrow> nat \<Rightarrow> nat option \<Rightarrow> nat option" where
  "readIntLoop d dPos len i val =
     (if i < len
      then readIntLoop d dPos len (Suc i)
             (case val of
                None \<Rightarrow> None
              | Some v \<Rightarrow>
                  if dPos + i < length d then Some (toNumber (v * 256 + unat (d ! (dPos + i))))
                  else None)
      else val)"
  by pat_completeness auto
termination
  by (relation "measure (\<lambda>(d, dPos, len, i, val). len - i)") auto

declare readIntLoop.simps [simp del]

definition readInt :: "byte list \<Rightarrow> nat \<Rightarrow> nat \<Rightarrow> sqlval" where
  "readInt d dPos len =
     (case readIntLoop d dPos len 0 (Some 0) of
        None \<Rightarrow> VNaN
      | Some v \<Rightarrow>
          if 0 < len \<and> byteOr0 d dPos AND 0x80 \<noteq> 0
          then VInt (roundInt (int v - jsShl1 (int len * 8)))
          else VInt (int v))"

fun valuesLoop :: "byte list \<Rightarrow> nat option list \<Rightarrow> nat \<Rightarrow> js_error + sqlval list" where
  "valuesLoop d [] dPos = Inr []"
| "valuesLoop d (None # types) dPos = jsBind (valuesLoop d types dPos) (\<lambda>vs. Inr (VNull # vs))"
| "valuesLoop d (Some st # types) dPos =
     (if st = 0 then jsBind (valuesLoop d types dPos) (\<lambda>vs. Inr (VNull # vs))
      else if 1 \<le> st \<and> st \<le> 6 then
        (let len = [0, 1, 2, 3, 4, 6, 8] ! st
         in jsBind (valuesLoop d types (dPos + len)) (\<lambda>vs. Inr (readInt d dPos len # vs)))
      else if st = 7 then
        (if dPos + 8 \<le> length d
         then jsBind (valuesLoop d types (dPos + 8)) (\<lambda>vs. Inr (VFloat (take 8 (drop dPos d)) # vs))
         else Inl RangeError)
      else if st = 8 then jsBind (valuesLoop d types dPos) (\<lambda>vs. Inr (VInt 0 # vs))
      else if st = 9 then jsBind (valuesLoop d types dPos) (\<lambda>vs. Inr (VInt 1 # vs))
      else if 12 \<le> st \<and> even st then
        jsBind (valuesLoop d types (dPos + (st - 12) div 2))
               (\<lambda>vs. Inr (VBlob (take ((st - 12) div 2) (drop dPos d)) # vs))
      else if 13 \<le> st \<and> odd st then
        jsBind (valuesLoop d types (dPos + (st - 13) div 2))
               (\<lambda>vs. Inr (VText (take ((st - 13) div 2) (drop dPos d)) # vs))
      else jsBind (valuesLoop d types dPos) (\<lambda>vs. Inr (VNull # vs)))"

definition parseRecord :: "byte list \<Rightarrow> js_error + sqlval list" where
  "parseRecord payload =
     (case readVarint payload 0 of
        (None, hb) \<Rightarrow> Inr []
      | (Some headerLen, hb) \<Rightarrow>
          valuesLoop payload (typesLoop payload headerLen hb []) headerLen)"

section \<open>Column value decoder: the index files and the columns of a table (app.js)\<close>



















subsection \<open>A table whose first column names a dictionary file that is absent\<close>









section \<open>XPress9 decompression (\<open>xpress9_wasm.c\<close>)\<close>

subsection \<open>The C wrapper around the XPress9 library\<close>









subsection \<open>\<open>decompressXpress9\<close> and \<open>decompressBlock\<close>\<close>














subsection \<open>The order of the calls to the library that a group of blocks requires\<close>







subsection \<open>A stream of two thread groups\<close>




section \<open>Verified properties\<close>

subsection \<open>The loops of the index decoder in closed form\<close>

lemma takeLoop_eq:
  "takeLoop bp off count i vec = vec @ take (count - i) (drop (off + i) bp)"
proof (induction bp off count i vec rule: takeLoop.induct)
  case (1 bp off count i vec)
  show ?case
  proof (cases "i < count \<and> off + i < length bp")
    case True
    then have d: "drop (off + i) bp = bp ! (off + i) # drop (off + Suc i) bp"
      by (simp add: Cons_nth_drop_Suc)
    from True obtain k where k: "count - i = Suc k" "count - Suc i = k"
      by (cases "count - i") auto
    have "takeLoop bp off count i vec
            = takeLoop bp off count (Suc i) (vec @ [js_index bp (off + i)])"
      using True by (subst takeLoop.simps) simp
    also have "\<dots> = (vec @ [js_index bp (off + i)]) @ take (count - Suc i) (drop (off + Suc i) bp)"
      using 1 True by simp
    finally show ?thesis
      using True d k by (simp add: js_index_def)
  next
    case False
    then show ?thesis
      by (subst takeLoop.simps) auto
  qed
qed

lemma repeatLoop_eq: "repeatLoop n v vec = vec @ replicate n v"
  by (induction n arbitrary: vec) (simp_all add: replicate_app_Cons_same)

lemma expandEntry_sentinel:
  "unat (dataValue e) + off = 0xFFFFFFFF \<Longrightarrow>
   expandEntry bp (off, vec) e
     = (off + unat (repeatValue e), vec @ take (unat (repeatValue e)) (drop off bp))"
  by (simp add: expandEntry_def takeLoop_eq)

lemma expandEntry_literal:
  "unat (dataValue e) + off \<noteq> 0xFFFFFFFF \<Longrightarrow>
   expandEntry bp (off, vec) e
     = (off, vec @ replicate (unat (repeatValue e)) (Num (unat (dataValue e))))"
  by (simp add: expandEntry_def repeatLoop_eq)

subsection \<open>C1: the worked example of the index decode\<close>

text \<open>
  C1. With minimum dictionary id 100, the primary segment \<open>[(0xFFFFFFFF, 3), (7, 2)]\<close>
  and a bit-packed stream that holds the ids \<open>[100, 101, 102]\<close>, the decode returns
  exactly \<open>[100, 101, 102, 7, 7]\<close>: the sentinel entry takes the three bit-packed ids
  and moves the cursor to 3, so the second entry (7 + 3 is not the sentinel) is a
  literal repeated twice.
\<close>

theorem decode_example_100_101_102_7_7:
  assumes "minDataId meta = 100"
    and "primarySegment idfData =
           [\<lparr>dataValue = 0xFFFFFFFF, repeatValue = 3\<rparr>, \<lparr>dataValue = 7, repeatValue = 2\<rparr>]"
    and "bitpackedValues idfData meta = Inr [Num 100, Num 101, Num 102]"
  shows "decodeRleBitPackedHybrid idfData meta = Inr [Num 100, Num 101, Num 102, Num 7, Num 7]"
proof -
  let ?bp = "[Num 100, Num 101, Num 102]"
  have s1: "expandEntry ?bp (0, []) \<lparr>dataValue = 0xFFFFFFFF, repeatValue = 3\<rparr> = (3, ?bp)"
    by (simp add: expandEntry_sentinel)
  have s2: "expandEntry ?bp (3, ?bp) \<lparr>dataValue = 7, repeatValue = 2\<rparr>
              = (3, [Num 100, Num 101, Num 102, Num 7, Num 7])"
  proof -
    have r: "replicate 2 v = [v, v]" for v :: jsval
      by (simp add: numeral_2_eq_2)
    show ?thesis
      by (simp add: expandEntry_literal r)
  qed
  show ?thesis
    using assms s1 s2 by (simp add: decodeRleBitPackedHybrid_def expandPrimary_def)
qed

theorem decode_example_witness:
  "decodeRleBitPackedHybrid
     \<lparr>primarySegment =
        [\<lparr>dataValue = 0xFFFFFFFF, repeatValue = 3\<rparr>, \<lparr>dataValue = 7, repeatValue = 2\<rparr>],
      subSegment = [0x200000400000]\<rparr>
     \<lparr>minDataId = 100, countBitPacked = 3, bitWidth = 22, rowCount = 5\<rparr>
   = Inr [Num 100, Num 101, Num 102, Num 7, Num 7]"
proof -
  have bp: "bitpackedValues
     \<lparr>primarySegment =
        [\<lparr>dataValue = 0xFFFFFFFF, repeatValue = 3\<rparr>, \<lparr>dataValue = 7, repeatValue = 2\<rparr>],
      subSegment = [0x200000400000]\<rparr>
     \<lparr>minDataId = 100, countBitPacked = 3, bitWidth = 22, rowCount = 5\<rparr>
     = Inr [Num 100, Num 101, Num 102]"
    by (simp add: bitpackedValues_def jsShl1_def unpackLoop.simps toNumber_def drop_bit_eq_div)
  show ?thesis
    by (rule decode_example_100_101_102_7_7 [OF _ _ bp]) simp_all
qed

subsection \<open>C4: the order in which a packed word is unpacked\<close>

lemma sint_pow: 
  assumes "k < 31" shows "sint ((2::32 word) ^ k) = 2 ^ k"
proof -
  have "(2::int) ^ k < 2 ^ 31"
    using assms by (intro power_strict_increasing) simp_all
  moreover have "- (2 ^ 31) \<le> (2::int) ^ k"
    by (rule order_trans [of _ 0]) simp_all
  ultimately have "signed_take_bit 31 ((2::int) ^ k) = 2 ^ k"
    by (rule_tac signed_take_bit_int_eq_self)
  moreover have "sint (word_of_int (2 ^ k) :: 32 word) = signed_take_bit 31 ((2::int) ^ k)"
    by (simp only: sint_sbintrunc') simp
  ultimately show ?thesis
    by simp
qed

lemma jsShl1_small: "0 \<le> n \<Longrightarrow> n \<le> 30 \<Longrightarrow> jsShl1 n = 2 ^ nat n"
  by (simp add: jsShl1_def sint_pow del: sint_sbintrunc)

lemma field_count: "0 < w \<Longrightarrow> (j < (63 + w) div w) = (j * w < (64::nat))"
proof -
  assume w: "0 < w"
  have "(j < (63 + w) div w) = (Suc j \<le> (63 + w) div w)" by auto
  also have "\<dots> = (Suc j * w \<le> 63 + w)"
    using w by (simp add: less_eq_div_iff_mult_less_eq)
  also have "\<dots> = (j * w < 64)" by auto
  finally show ?thesis .
qed

lemma toNumber_small: "n < 2 ^ 53 \<Longrightarrow> toNumber n = n"
  by (simp add: toNumber_def)

lemma and_mask_int: "0 \<le> (v::int) \<Longrightarrow> nat (v AND (2 ^ w - 1)) = nat v mod 2 ^ w"
  apply (simp flip: mask_eq_exp_minus_1 take_bit_eq_mask)
  apply (simp add: take_bit_eq_mod nat_mod_distrib nat_power_eq)
  done

lemma field_value:
  assumes "0 \<le> (v::int)" "w \<le> 30" "minId < 2 ^ 32"
  shows "toNumber (nat (int minId + (drop_bit (j * w) v AND (2 ^ w - 1))))
         = minId + nat v div 2 ^ (j * w) mod 2 ^ w"
proof -
  let ?d = "drop_bit (j * w) v"
  have d0: "0 \<le> ?d" using assms(1) by simp
  have a0: "0 \<le> ?d AND (2 ^ w - 1)"
    using d0 by simp
  have f: "nat (?d AND (2 ^ w - 1)) = nat ?d mod 2 ^ w"
    using d0 by (rule and_mask_int)
  have nd: "nat ?d = nat v div 2 ^ (j * w)"
    using assms(1) by (simp add: drop_bit_eq_div nat_div_distrib nat_power_eq)
  have "(2::nat) ^ w \<le> 2 ^ 30"
    using assms(2) by (intro power_increasing) simp_all
  moreover have "nat ?d mod 2 ^ w < 2 ^ w" by simp
  ultimately have lt: "nat ?d mod 2 ^ w < 2 ^ 30" by linarith
  have "nat (int minId + (?d AND (2 ^ w - 1))) = minId + nat ?d mod 2 ^ w"
    using a0 f by (simp add: nat_add_distrib)
  moreover have "minId + nat ?d mod 2 ^ w < 2 ^ 53"
    using lt assms(3) by simp
  ultimately show ?thesis
    by (simp add: toNumber_small nd)
qed

lemma unpackLoop_eq:
  assumes "0 < w" "w \<le> 30" "minId < 2 ^ 32" "0 \<le> v"
  shows "unpackLoop (2 ^ w - 1) minId (int w) j (drop_bit (j * w) v) acc
         = acc @ map (\<lambda>k. Num (minId + nat v div 2 ^ (k * w) mod 2 ^ w)) [j ..< (63 + w) div w]"
proof (induction "(63 + w) div w - j" arbitrary: j acc)
  case 0
  then have "\<not> j < (63 + w) div w" by simp
  then have "\<not> j * w < 64" using assms(1) by (simp add: field_count)
  then have "\<not> int j * int w < 64" by (simp flip: of_nat_mult)
  then show ?case
    using 0 by (subst unpackLoop.simps) simp
next
  case (Suc d)
  then have lt: "j < (63 + w) div w" by simp
  then have "j * w < 64" using assms(1) by (simp add: field_count)
  then have g: "int j * int w < 64" by (simp flip: of_nat_mult)
  have d: "d = (63 + w) div w - Suc j" using Suc(2) by simp
  have "unpackLoop (2 ^ w - 1) minId (int w) j (drop_bit (j * w) v) acc
        = unpackLoop (2 ^ w - 1) minId (int w) (Suc j) (drop_bit (Suc j * w) v)
            (acc @ [Num (minId + nat v div 2 ^ (j * w) mod 2 ^ w)])"
    using g assms(1) 
    by (subst unpackLoop.simps) (simp add: field_value [OF assms(4) assms(2) assms(3)])
  also have "\<dots> = (acc @ [Num (minId + nat v div 2 ^ (j * w) mod 2 ^ w)])
         @ map (\<lambda>k. Num (minId + nat v div 2 ^ (k * w) mod 2 ^ w)) [Suc j ..< (63 + w) div w]"
    by (rule Suc(1) [OF d])
  finally show ?case
    using lt by (simp add: upt_conv_Cons)
qed

lemma unpackWords_eq:
  assumes "0 < w" "w \<le> 30" "minId < 2 ^ 32"
  shows "unpackWords (2 ^ w - 1) minId (int w) ws acc
         = acc @ concat (map (\<lambda>u64. map (\<lambda>k. Num (minId + unat u64 div 2 ^ (k * w) mod 2 ^ w))
                                        [0 ..< (63 + w) div w]) ws)"
proof (induction ws arbitrary: acc)
  case Nil
  show ?case by simp
next
  case (Cons u64 rest)
  have "unpackLoop (2 ^ w - 1) minId (int w) 0 (drop_bit (0 * w) (uint u64)) acc
        = acc @ map (\<lambda>k. Num (minId + nat (uint u64) div 2 ^ (k * w) mod 2 ^ w)) [0 ..< (63 + w) div w]"
    by (rule unpackLoop_eq [OF assms]) simp
  then show ?case
    by (simp add: Cons)
qed

lemma upt4: "[0..<4] = [0, 1, 2, 3]"
  by (simp add: upt_conv_Cons)

lemma field_count_other:
  assumes "0 < (w::nat)" "\<not> w dvd 64"
  shows "(63 + w) div w = 64 div w + 1"
proof (rule div_nat_eqI)
  have "w * (64 div w) \<le> 64"
    by simp
  moreover have "w * (64 div w) \<noteq> 64"
  proof
    assume e: "w * (64 div w) = 64"
    have "w dvd w * (64 div w)"
      by (rule dvd_triv_left)
    then show False
      using assms(2) by (simp only: e)
  qed
  ultimately have "w * (64 div w) \<le> 63"
    by arith
  then show "w * (64 div w + 1) \<le> 63 + w"
    by (simp add: algebra_simps)
  have "64 < w * Suc (64 div w)"
    using dividend_less_times_div [of w 64] assms(1) by simp
  then show "63 + w < w * Suc (64 div w + 1)"
    by (simp add: algebra_simps)
qed

lemma length_concat_const:
  assumes "\<And>x. length (f x) = k"
  shows "length (concat (map f xs)) = length xs * k"
  using assms by (induction xs) simp_all

text \<open>
  At every width from 1 to 30 that does not divide 64 the bound \<open>64 / bitWidth\<close> of the
  inner loop is not an integer, and each word gives one id more than the \<open>64 / w\<close>
  fields of the specification, taken from the bits left over at the top of the word.
\<close>

lemma extra_id_at_other_widths:
  assumes "1 \<le> bitWidth meta" "bitWidth meta \<le> 30" "\<not> nat (bitWidth meta) dvd 64"
    and "0 < countBitPacked meta" "subSegment idfData \<noteq> []"
    and "\<not> (length (subSegment idfData) = 1 \<and> subSegment idfData ! 0 = 0)"
  shows "\<exists>ids. bitpackedValues idfData meta = Inr ids
             \<and> length ids = length (subSegment idfData) * (64 div nat (bitWidth meta) + 1)"
proof -
  let ?w = "nat (bitWidth meta)"
  have w: "0 < ?w" "?w \<le> 30" "int ?w = bitWidth meta"
    using assms(1,2) by simp_all
  have m: "jsShl1 (bitWidth meta) - 1 = 2 ^ ?w - 1"
    using assms(1,2) by (simp add: jsShl1_small)
  have lt: "unat (minDataId meta) < 2 ^ 32"
    using unsigned_less [of "minDataId meta"] by simp
  let ?ids = "concat (map (\<lambda>u64. map (\<lambda>k. Num (unat (minDataId meta) + unat u64 div 2 ^ (k * ?w) mod 2 ^ ?w))
                                        [0 ..< (63 + ?w) div ?w]) (subSegment idfData))"
  have "unpackWords (2 ^ ?w - 1) (unat (minDataId meta)) (int ?w) (subSegment idfData) [] = [] @ ?ids"
    by (rule unpackWords_eq [OF w(1) w(2) lt])
  then have a: "bitpackedValues idfData meta = Inr ?ids"
    using assms m w(3) by (auto simp add: bitpackedValues_def)
  have "length ?ids = length (subSegment idfData) * ((63 + ?w) div ?w)"
    by (rule length_concat_const) simp
  then have "length ?ids = length (subSegment idfData) * (64 div ?w + 1)"
    by (simp only: field_count_other [OF w(1) assms(3)])
  with a show ?thesis
    by blast
qed

lemma rev_spec_unpackMsbFirst:
  assumes "w dvd 64" "0 < w"
  shows "rev (spec_unpackMsbFirst w minId u64)
         = map (\<lambda>j. Num (minId + unat u64 div 2 ^ (j * w) mod 2 ^ w)) [0 ..< 64 div w]"
proof (rule nth_equalityI)
  show "length (rev (spec_unpackMsbFirst w minId u64))
        = length (map (\<lambda>j. Num (minId + unat u64 div 2 ^ (j * w) mod 2 ^ w)) [0 ..< 64 div w])"
    by (simp add: spec_unpackMsbFirst_def)
next
  fix k
  assume "k < length (rev (spec_unpackMsbFirst w minId u64))"
  then have k: "k < 64 div w"
    by (simp add: spec_unpackMsbFirst_def)
  let ?n = "64 div w"
  have nw: "?n * w = 64"
    using assms(1) by simp
  have "(?n - k) * w + k * w = ?n * w"
    using k by (simp flip: add_mult_distrib)
  then have e: "64 - (?n - k) * w = k * w"
    using nw by simp
  have s: "Suc (?n - Suc k) = ?n - k"
    using k by simp
  have "rev (spec_unpackMsbFirst w minId u64) ! k = spec_unpackMsbFirst w minId u64 ! (?n - Suc k)"
    using k by (simp add: rev_nth spec_unpackMsbFirst_def)
  also have "\<dots> = Num (minId + unat u64 div 2 ^ (64 - (?n - k) * w) mod 2 ^ w)"
  proof -
    have "(?n - k) * w = Suc (?n - Suc k) * w"
      by (simp only: s)
    then have "w + (?n - Suc k) * w = (?n - k) * w"
      by simp
    then show ?thesis
      using k by (simp add: spec_unpackMsbFirst_def)
  qed
  finally show "rev (spec_unpackMsbFirst w minId u64) ! k
        = map (\<lambda>j. Num (minId + unat u64 div 2 ^ (j * w) mod 2 ^ w)) [0 ..< 64 div w] ! k"
    using k by (simp add: e)
qed

lemma field_count_dvd:
  assumes "w dvd 64" "0 < (w::nat)"
  shows "(63 + w) div w = 64 div w"
proof -
  obtain n where n: "64 = w * n"
    using assms(1) by (auto simp add: dvd_def)
  have "0 < n" using n by (cases n) simp_all
  have "63 + w = (w - 1) + w * n"
    using n assms(2) by simp
  then have "(63 + w) div w = (w - 1 + w * n) div w"
    by simp
  also have "\<dots> = n + (w - 1) div w"
    using assms(2) by (simp only: div_mult_self2 neq0_conv)
  also have "\<dots> = n"
    using assms(2) by simp
  finally have "(63 + w) div w = n" .
  moreover have "64 div w = n"
    using assms(2) by (simp only: n nonzero_mult_div_cancel_left neq0_conv)
  ultimately show ?thesis
    by simp
qed

lemma upt2: "[0..<2] = [0, 1]"
  by (simp add: upt_conv_Cons)

text \<open>
  C4 as stated (every width, most significant field first, \<open>64 / bitWidth\<close> fields) fails
  in three ways. The order: the word \<open>0x0001000200030004\<close> at width 16 and minimum id
  100 decodes to \<open>[104, 103, 102, 101]\<close>, whereas most-significant-first unpacking gives
  \<open>[101, 102, 103, 104]\<close>. The number of fields at a width that does not divide 64: at
  width 3 a word gives 22 ids, the last one from bit 63 alone, not the 21 fields of the
  specification (the bound \<open>64 / bitWidth\<close> of the loop is not an integer). The mask at
  widths 32 and 64: \<open>(1 << bitWidth) - 1\<close> is 0 there, and every id is the minimum id.
\<close>

theorem msb_first_counterexample:
  "decodeRleBitPackedHybrid
     \<lparr>primarySegment = [\<lparr>dataValue = 0xFFFFFFFF, repeatValue = 4\<rparr>],
      subSegment = [0x0001000200030004]\<rparr>
     \<lparr>minDataId = 100, countBitPacked = 4, bitWidth = 16, rowCount = 4\<rparr>
     = Inr [Num 104, Num 103, Num 102, Num 101]
   \<and> spec_unpackMsbFirst 16 100 0x0001000200030004 = [Num 101, Num 102, Num 103, Num 104]
   \<and> bitpackedValues
       \<lparr>primarySegment = [], subSegment = [0x8000000000000005]\<rparr>
       \<lparr>minDataId = 100, countBitPacked = 21, bitWidth = 3, rowCount = 21\<rparr>
     = Inr [Num 105, Num 100, Num 100, Num 100, Num 100, Num 100, Num 100, Num 100, Num 100, Num 100,
            Num 100, Num 100, Num 100, Num 100, Num 100, Num 100, Num 100, Num 100, Num 100, Num 100,
            Num 100, Num 101]
   \<and> length (spec_unpackMsbFirst 3 100 0x8000000000000005) = 21
   \<and> bitpackedValues
       \<lparr>primarySegment = [], subSegment = [0x0000000200000001]\<rparr>
       \<lparr>minDataId = 100, countBitPacked = 2, bitWidth = 32, rowCount = 2\<rparr>
     = Inr [Num 100, Num 100]
   \<and> spec_unpackMsbFirst 32 100 0x0000000200000001 = [Num 102, Num 101]
   \<and> bitpackedValues
       \<lparr>primarySegment = [], subSegment = [0x0000000000000007]\<rparr>
       \<lparr>minDataId = 100, countBitPacked = 1, bitWidth = 64, rowCount = 1\<rparr>
     = Inr [Num 100]
   \<and> spec_unpackMsbFirst 64 100 0x0000000000000007 = [Num 107]"
proof -
  have a: "decodeRleBitPackedHybrid
     \<lparr>primarySegment = [\<lparr>dataValue = 0xFFFFFFFF, repeatValue = 4\<rparr>],
      subSegment = [0x0001000200030004]\<rparr>
     \<lparr>minDataId = 100, countBitPacked = 4, bitWidth = 16, rowCount = 4\<rparr>
     = Inr [Num 104, Num 103, Num 102, Num 101]
   \<and> spec_unpackMsbFirst 16 100 0x0001000200030004 = [Num 101, Num 102, Num 103, Num 104]"
    by (simp add: decodeRleBitPackedHybrid_def bitpackedValues_def jsShl1_def unpackLoop.simps
        toNumber_def drop_bit_eq_div expandPrimary_def expandEntry_sentinel
        spec_unpackMsbFirst_def upt4)
  have b: "bitpackedValues
       \<lparr>primarySegment = [], subSegment = [0x8000000000000005]\<rparr>
       \<lparr>minDataId = 100, countBitPacked = 21, bitWidth = 3, rowCount = 21\<rparr>
     = Inr [Num 105, Num 100, Num 100, Num 100, Num 100, Num 100, Num 100, Num 100, Num 100, Num 100,
            Num 100, Num 100, Num 100, Num 100, Num 100, Num 100, Num 100, Num 100, Num 100, Num 100,
            Num 100, Num 101]"
    by (simp add: bitpackedValues_def jsShl1_def unpackLoop.simps toNumber_def drop_bit_eq_div)
  have c: "length (spec_unpackMsbFirst 3 100 0x8000000000000005) = 21"
    by (simp add: spec_unpackMsbFirst_def)
  have d: "bitpackedValues
       \<lparr>primarySegment = [], subSegment = [0x0000000200000001]\<rparr>
       \<lparr>minDataId = 100, countBitPacked = 2, bitWidth = 32, rowCount = 2\<rparr>
     = Inr [Num 100, Num 100]"
    by (simp add: bitpackedValues_def jsShl1_def unpackLoop.simps toNumber_def drop_bit_eq_div)
  have e: "spec_unpackMsbFirst 32 100 0x0000000200000001 = [Num 102, Num 101]"
    by (simp add: spec_unpackMsbFirst_def upt2)
  have f: "bitpackedValues
       \<lparr>primarySegment = [], subSegment = [0x0000000000000007]\<rparr>
       \<lparr>minDataId = 100, countBitPacked = 1, bitWidth = 64, rowCount = 1\<rparr>
     = Inr [Num 100]"
    by (simp add: bitpackedValues_def jsShl1_def unpackLoop.simps toNumber_def drop_bit_eq_div)
  have g: "spec_unpackMsbFirst 64 100 0x0000000000000007 = [Num 107]"
    by (simp add: spec_unpackMsbFirst_def)
  show ?thesis
    using a b c d e f g by (intro conjI) simp_all
qed

text \<open>
  C4, amended. For every bit width \<open>w\<close> that divides 64 and is below 32 (1, 2, 4, 8 or
  16) and every sub-segment that is not the single all-zero word (with a positive count
  of bit-packed entries), each word is unpacked into its \<open>64 / w\<close> fields of \<open>w\<close> bits,
  least significant field first, each field added to the minimum dictionary id: the
  \<open>j\<close>-th id of a word is the minimum id plus the bits \<open>[j * w, j * w + w)\<close> of the word.
  These are the fields of the specification, in the reverse order.
\<close>

theorem bitpackedValues_lsb_first:
  assumes "nat (bitWidth meta) dvd 64" "1 \<le> bitWidth meta" "bitWidth meta < 32"
    and "0 < countBitPacked meta" "subSegment idfData \<noteq> []"
    and "\<not> (length (subSegment idfData) = 1 \<and> subSegment idfData ! 0 = 0)"
  shows "bitpackedValues idfData meta
         = Inr (concat (map (\<lambda>u64. map (\<lambda>j. Num (unat (minDataId meta)
                                    + unat u64 div 2 ^ (j * nat (bitWidth meta)) mod 2 ^ nat (bitWidth meta)))
                                  [0 ..< 64 div nat (bitWidth meta)])
                        (subSegment idfData)))
       \<and> bitpackedValues idfData meta
         = Inr (concat (map (\<lambda>u64. rev (spec_unpackMsbFirst (nat (bitWidth meta)) (unat (minDataId meta)) u64))
                        (subSegment idfData)))"
proof -
  let ?w = "nat (bitWidth meta)"
  have "?w \<noteq> 31"
    using assms(1) by auto
  then have le: "bitWidth meta \<le> 30"
    using assms(3) by simp
  have w: "0 < ?w" "?w \<le> 30" "int ?w = bitWidth meta"
    using assms(2) le by simp_all
  have m: "jsShl1 (bitWidth meta) - 1 = 2 ^ ?w - 1"
    using assms(2) le by (simp add: jsShl1_small)
  have lt: "unat (minDataId meta) < 2 ^ 32"
    using unsigned_less [of "minDataId meta"] by simp
  have "unpackWords (2 ^ ?w - 1) (unat (minDataId meta)) (int ?w) (subSegment idfData) []
         = [] @ concat (map (\<lambda>u64. map (\<lambda>k. Num (unat (minDataId meta) + unat u64 div 2 ^ (k * ?w) mod 2 ^ ?w))
                                        [0 ..< (63 + ?w) div ?w]) (subSegment idfData))"
    by (rule unpackWords_eq [OF w(1) w(2) lt])
  then have a: "bitpackedValues idfData meta
         = Inr (concat (map (\<lambda>u64. map (\<lambda>j. Num (unat (minDataId meta)
                                    + unat u64 div 2 ^ (j * ?w) mod 2 ^ ?w))
                                  [0 ..< 64 div ?w])
                        (subSegment idfData)))"
    using assms(2-6) m w(3) field_count_dvd [OF assms(1) w(1)]
    by (auto simp add: bitpackedValues_def)
  show ?thesis
    using a by (simp add: rev_spec_unpackMsbFirst [OF assms(1) w(1)])
qed

theorem bitpackedValues_lsb_first_witness:
  "bitpackedValues
     \<lparr>primarySegment = [], subSegment = [0x0001000200030004]\<rparr>
     \<lparr>minDataId = 100, countBitPacked = 4, bitWidth = 16, rowCount = 4\<rparr>
   = Inr [Num 104, Num 103, Num 102, Num 101]
   \<and> bitpackedValues
     \<lparr>primarySegment = [], subSegment = [0x0001000200030004]\<rparr>
     \<lparr>minDataId = 100, countBitPacked = 4, bitWidth = 16, rowCount = 4\<rparr>
   = Inr (rev (spec_unpackMsbFirst 16 100 0x0001000200030004))"
  using bitpackedValues_lsb_first
          [of "\<lparr>minDataId = 100, countBitPacked = 4, bitWidth = 16, rowCount = 4\<rparr>"
              "\<lparr>primarySegment = [], subSegment = [0x0001000200030004]\<rparr>"]
  by (simp add: upt4 spec_unpackMsbFirst_def)

subsection \<open>C10: a sentinel entry that asks for more ids than the stream holds\<close>

lemma unpackLoop_defined:
  "Undefined \<notin> set acc \<Longrightarrow> Undefined \<notin> set (unpackLoop msk minId bw j val acc)"
proof (induction msk minId bw j val acc rule: unpackLoop.induct)
  case (1 msk minId bw j val acc)
  show ?case
  proof (cases "0 < bw \<and> int j * bw < 64")
    case True
    then show ?thesis
      using 1 by (subst unpackLoop.simps) simp
  next
    case False
    then show ?thesis
      using 1 by (subst unpackLoop.simps) auto
  qed
qed

lemma unpackWords_defined:
  "Undefined \<notin> set acc \<Longrightarrow> Undefined \<notin> set (unpackWords msk minId bw ws acc)"
  by (induction ws arbitrary: acc) (simp_all add: unpackLoop_defined)

lemma bitpackedValues_defined:
  "bitpackedValues idfData meta = Inr bp \<Longrightarrow> Undefined \<notin> set bp"
  using unpackWords_defined [of "[]"]
  by (auto simp add: bitpackedValues_def split: if_splits)

lemma expandEntry_defined:
  assumes "Undefined \<notin> set bp" "Undefined \<notin> set (snd st)"
  shows "Undefined \<notin> set (snd (expandEntry bp st e))"
proof (cases st)
  case (Pair off vec)
  show ?thesis
  proof (cases "unat (dataValue e) + off = 0xFFFFFFFF")
    case True
    have "set (take (unat (repeatValue e)) (drop off bp)) \<subseteq> set bp"
      by (meson set_take_subset set_drop_subset subset_trans)
    then show ?thesis
      using assms Pair True by (auto simp add: expandEntry_sentinel)
  next
    case False
    then show ?thesis
      using assms Pair by (simp add: expandEntry_literal)
  qed
qed

lemma foldl_expandEntry_defined:
  "Undefined \<notin> set bp \<Longrightarrow> Undefined \<notin> set (snd st) \<Longrightarrow>
   Undefined \<notin> set (snd (foldl (expandEntry bp) st es))"
  by (induction es arbitrary: st) (simp_all add: expandEntry_defined)

lemma expandEntry_length:
  "length (snd (expandEntry bp st e)) \<le> length (snd st) + unat (repeatValue e)"
proof (cases st)
  case (Pair off vec)
  then show ?thesis
    by (cases "unat (dataValue e) + off = 0xFFFFFFFF")
       (simp_all add: expandEntry_sentinel expandEntry_literal)
qed

lemma foldl_expandEntry_length:
  "length (snd (foldl (expandEntry bp) st es))
     \<le> length (snd st) + sum_list (map (\<lambda>e. unat (repeatValue e)) es)"
proof (induction es arbitrary: st)
  case Nil
  show ?case by simp
next
  case (Cons e es)
  have "length (snd (foldl (expandEntry bp) (expandEntry bp st e) es))
          \<le> length (snd (expandEntry bp st e)) + sum_list (map (\<lambda>e. unat (repeatValue e)) es)"
    by (rule Cons)
  with expandEntry_length [of bp st e] show ?case
    by simp
qed

lemma expandEntry_appends:
  "take (length (snd st)) (snd (expandEntry bp st e)) = snd st"
proof (cases st)
  case (Pair off vec)
  then show ?thesis
    by (cases "unat (dataValue e) + off = 0xFFFFFFFF")
       (simp_all add: expandEntry_sentinel expandEntry_literal)
qed

lemma expandEntry_grows:
  "length (snd st) \<le> length (snd (expandEntry bp st e))"
proof (cases st)
  case (Pair off vec)
  then show ?thesis
    by (cases "unat (dataValue e) + off = 0xFFFFFFFF")
       (simp_all add: expandEntry_sentinel expandEntry_literal)
qed

lemma foldl_expandEntry_appends:
  "length (snd st) \<le> length (snd (foldl (expandEntry bp) st es))
   \<and> take (length (snd st)) (snd (foldl (expandEntry bp) st es)) = snd st"
proof (induction es arbitrary: st)
  case Nil
  show ?case by simp
next
  case (Cons e es)
  let ?st' = "expandEntry bp st e"
  let ?r = "snd (foldl (expandEntry bp) ?st' es)"
  have a: "length (snd ?st') \<le> length ?r" "take (length (snd ?st')) ?r = snd ?st'"
    using Cons [of ?st'] by simp_all
  have b: "length (snd st) \<le> length (snd ?st')"
    by (rule expandEntry_grows)
  have "take (length (snd st)) ?r = take (length (snd st)) (take (length (snd ?st')) ?r)"
    using b by (simp add: min_def)
  also have "\<dots> = snd st"
    using a(2) expandEntry_appends [of st bp e] by simp
  finally show ?case
    using a(1) b by simp
qed

text \<open>
  C10. Let a sentinel entry be reached with cursor \<open>bpOffset\<close> and vector \<open>vec\<close>, and
  let its repeat count exceed the number of bit-packed ids left after the cursor. Then
  the entry appends exactly the ids that exist (\<open>drop bpOffset bp\<close>) and the cursor
  advances by the full repeat count. The decode returns the vector that the entries
  after the sentinel build from that state (the vector \<open>vec @ drop bpOffset bp\<close> itself
  when the sentinel is the last entry): it begins with \<open>vec @ drop bpOffset bp\<close>, has no
  \<open>undefined\<close> entry, and its length is strictly less than the sum of all repeat counts.
\<close>

theorem sentinel_beyond_stream:
  assumes bp: "bitpackedValues idfData meta = Inr bp"
    and seg: "primarySegment idfData = pre @ entry # post"
    and st: "expandPrimary bp pre = (bpOffset, vec)"
    and sentinel: "unat (dataValue entry) + bpOffset = 0xFFFFFFFF"
    and short: "length bp - bpOffset < unat (repeatValue entry)"
  shows "expandPrimary bp (pre @ [entry])
           = (bpOffset + unat (repeatValue entry), vec @ drop bpOffset bp)
       \<and> decodeRleBitPackedHybrid idfData meta
           = Inr (snd (foldl (expandEntry bp)
                         (bpOffset + unat (repeatValue entry), vec @ drop bpOffset bp) post))
       \<and> (post = [] \<longrightarrow> decodeRleBitPackedHybrid idfData meta = Inr (vec @ drop bpOffset bp))
       \<and> (\<forall>out. decodeRleBitPackedHybrid idfData meta = Inr out \<longrightarrow>
              take (length vec + (length bp - bpOffset)) out = vec @ drop bpOffset bp
              \<and> Undefined \<notin> set out
              \<and> length out < sum_list (map (\<lambda>e. unat (repeatValue e)) (primarySegment idfData)))"
proof -
  have step: "expandPrimary bp (pre @ [entry])
           = (bpOffset + unat (repeatValue entry), vec @ drop bpOffset bp)"
    using st sentinel short
    by (simp add: expandPrimary_def expandEntry_sentinel)
  let ?st = "(bpOffset + unat (repeatValue entry), vec @ drop bpOffset bp)"
  let ?out = "snd (foldl (expandEntry bp) ?st post)"
  have all: "expandPrimary bp (primarySegment idfData) = foldl (expandEntry bp) ?st post"
    using step by (simp add: expandPrimary_def seg)
  have dec: "decodeRleBitPackedHybrid idfData meta = Inr ?out"
    using bp all by (simp add: decodeRleBitPackedHybrid_def)
  have def: "Undefined \<notin> set ?out"
    using bitpackedValues_defined [OF bp] all [symmetric]
    by (simp add: expandPrimary_def foldl_expandEntry_defined)
  have lpre: "length vec \<le> sum_list (map (\<lambda>e. unat (repeatValue e)) pre)"
    using foldl_expandEntry_length [of bp "(0, [])" pre] st
    by (simp add: expandPrimary_def)
  have "length ?out \<le> length (vec @ drop bpOffset bp)
                + sum_list (map (\<lambda>e. unat (repeatValue e)) post)"
    using foldl_expandEntry_length [of bp ?st post] by simp
  then have len: "length ?out < sum_list (map (\<lambda>e. unat (repeatValue e)) (primarySegment idfData))"
    using lpre short by (simp add: seg)
  have pre: "take (length vec + (length bp - bpOffset)) ?out = vec @ drop bpOffset bp"
    using foldl_expandEntry_appends [of ?st bp post] by simp
  show ?thesis
    using step dec def len pre by simp
qed

theorem sentinel_beyond_stream_witness:
  "expandPrimary [Num 100, Num 101, Num 102]
      ([\<lparr>dataValue = 7, repeatValue = 1\<rparr>] @ [\<lparr>dataValue = 0xFFFFFFFF, repeatValue = 5\<rparr>])
     = (0 + unat (5 :: 32 word), [Num 7] @ drop 0 [Num 100, Num 101, Num 102])
   \<and> decodeRleBitPackedHybrid
        \<lparr>primarySegment = [\<lparr>dataValue = 7, repeatValue = 1\<rparr>,
                           \<lparr>dataValue = 0xFFFFFFFF, repeatValue = 5\<rparr>,
                           \<lparr>dataValue = 9, repeatValue = 2\<rparr>,
                           \<lparr>dataValue = 0xFFFFFFFA, repeatValue = 3\<rparr>],
         subSegment = [0x200000400000]\<rparr>
        \<lparr>minDataId = 100, countBitPacked = 3, bitWidth = 22, rowCount = 11\<rparr>
      = Inr [Num 7, Num 100, Num 101, Num 102, Num 9, Num 9]
   \<and> length [Num 7, Num 100, Num 101, Num 102, Num 9, Num 9]
      < sum_list (map (\<lambda>e. unat (repeatValue e))
               [\<lparr>dataValue = 7, repeatValue = 1\<rparr>,
                \<lparr>dataValue = 0xFFFFFFFF, repeatValue = 5 :: 32 word\<rparr>,
                \<lparr>dataValue = 9, repeatValue = 2\<rparr>,
                \<lparr>dataValue = 0xFFFFFFFA, repeatValue = 3\<rparr>])"
proof -
  have bp: "bitpackedValues
     \<lparr>primarySegment = [\<lparr>dataValue = 7, repeatValue = 1\<rparr>,
                           \<lparr>dataValue = 0xFFFFFFFF, repeatValue = 5\<rparr>,
                           \<lparr>dataValue = 9, repeatValue = 2\<rparr>,
                           \<lparr>dataValue = 0xFFFFFFFA, repeatValue = 3\<rparr>],
      subSegment = [0x200000400000]\<rparr>
     \<lparr>minDataId = 100, countBitPacked = 3, bitWidth = 22, rowCount = 11\<rparr>
     = Inr [Num 100, Num 101, Num 102]"
    by (simp add: bitpackedValues_def jsShl1_def unpackLoop.simps toNumber_def drop_bit_eq_div)
  have r: "replicate 2 v = [v, v]" for v :: jsval
    by (simp add: numeral_2_eq_2)
  have pre: "expandPrimary [Num 100, Num 101, Num 102] [\<lparr>dataValue = 7, repeatValue = 1\<rparr>] = (0, [Num 7])"
    by (simp add: expandPrimary_def expandEntry_def repeatLoop_eq)
  show ?thesis
    using sentinel_beyond_stream [OF bp, of "[\<lparr>dataValue = 7, repeatValue = 1\<rparr>]"
             "\<lparr>dataValue = 0xFFFFFFFF, repeatValue = 5\<rparr>"
             "[\<lparr>dataValue = 9, repeatValue = 2\<rparr>, \<lparr>dataValue = 0xFFFFFFFA, repeatValue = 3\<rparr>]" 0 "[Num 7]"]
          pre
    by (simp add: expandPrimary_def expandEntry_def repeatLoop_eq takeLoop_eq r)
qed

subsection \<open>The regular-expression loops return\<close>

text \<open>
  A successful match consumes at least the least length of the frames matched, so a
  regular expression of positive least length never matches the empty string and the
  \<open>exec\<close> loops over it end.
\<close>

lemma rmatch_progress:
  "rmatch k s st = Some st' \<Longrightarrow> fst st + sum_list (map fmin k) \<le> fst st'"
proof (induction k s st arbitrary: st' rule: rmatch.induct)
  case (5 a b k s st)
  then show ?case
    by (fastforce split: option.splits)
next
  case (6 a k s st)
  then show ?case
    by (fastforce split: option.splits)
qed (fastforce split: if_splits)+

lemma execAll_returns:
  "0 < rmin r \<Longrightarrow> \<exists>ms. execAll r s i = Inr ms"
proof (induction r s i rule: execAll.induct)
  case (1 r s i)
  show ?case
  proof (cases "length s < i")
    case True
    then show ?thesis by (subst execAll.simps) simp
  next
    case False
    show ?thesis
    proof (cases "rmatch [R r] s (i, None)")
      case None
      then show ?thesis
        using 1 False by (subst execAll.simps) simp
    next
      case (Some st)
      have "i < fst st"
        using rmatch_progress [OF Some] 1(3) by simp
      then show ?thesis
        using 1(2) [OF False Some] 1(3) Some False
        by (subst execAll.simps) auto
    qed
  qed
qed

lemmas re_defs = litsI_def lits_def str_def litI_def lit_def rplus_def ropt_def
  hashQuoted_def bareIdent_def quotedBody_def notQuote_def

lemma rmin_regexes:
  "0 < rmin reShared" "0 < rmin reIdent" "0 < rmin reQuotedRef" "0 < rmin reFileContents"
  by (simp_all add: reShared_def reIdent_def reQuotedRef_def reFileContents_def re_defs)

lemma jsBind_Inr_iff:
  "jsBind m f = Inr y \<longleftrightarrow> (\<exists>v. m = Inr v \<and> f v = Inr y)"
  by (cases m) (simp_all add: jsBind_def)

lemma jsBind_Inl_iff:
  "jsBind m f = Inl e \<longleftrightarrow> (m = Inl e \<or> (\<exists>v. m = Inr v \<and> f v = Inl e))"
  by (cases m) (simp_all add: jsBind_def)

lemma findDeps_returns: "\<exists>d. findDeps sc self = Inr d"
  using execAll_returns [OF rmin_regexes(2), of "depScan sc" 0]
        execAll_returns [OF rmin_regexes(3), of sc 0]
  by (auto simp add: findDeps_def jsBind_def)

lemma findExternalFileRefs_returns: "\<exists>d. findExternalFileRefs c = Inr d"
  using execAll_returns [OF rmin_regexes(4), of c 0]
  by (auto simp add: findExternalFileRefs_def jsBind_def)

lemma parseSegment_no_loop: "parseSegment c stripped fn s e \<noteq> Inl NoReturn"
  using findDeps_returns findExternalFileRefs_returns
  apply (auto simp add: parseSegment_def Let_def jsBind_Inl_iff split: option.splits)
  apply (metis Inl_Inr_False)+
  done

lemma parseSegments_no_loop: "parseSegments c stripped fn ps \<noteq> Inl NoReturn"
  by (induction ps) (auto simp add: jsBind_Inl_iff parseSegment_no_loop)

lemma parseMCodeFile_no_loop: "parseMCodeFile mCode fn \<noteq> Inl NoReturn"
  using execAll_returns [OF rmin_regexes(1), of "stripCS (stripBOM mCode)" 0]
        findDeps_returns [of "stripCS (stripBOM mCode)" "str ''Query1''"]
        findExternalFileRefs_returns [of mCode]
  by (auto simp add: parseMCodeFile_def Let_def jsBind_Inl_iff parseSegments_no_loop)

subsection \<open>Evaluation of the analyzer on concrete text\<close>

lemmas eval_defs = litsI_def lits_def str_def litI_def lit_def asciiUpper_def rplus_def ropt_def
  hashQuoted_def bareIdent_def quotedBody_def notQuote_def isSpace_def isLineTerminator_def
  isWordChar_def wordBefore_def wordAt_def isDigit_def isSlash_def nextIs_def
  reShared_def reSharedName_def reLet_def reIn_def reIdent_def reQuotedRef_def reDigitStart_def
  reFileContents_def reQueryFragment_def reTrailingSlashes_def
  execAll.simps firstMatch.simps indexOfLoop.simps
  parseMCodeFile_def parseSegment_def findDeps_def findExternalFileRefs_def
  addIdent_def addQuoted_def addFileRef_def setAdd_def jsBind_def stripBOM_def
  substring_def substringFrom_def clampIndex_def sliceInner_def startsWith_def endsWith_def
  indexOf_def trim_def replaceFirst_def matched_def group1_def MKW_def Let_def

lemma orders_eval:
  "parseMCodeFile (str ''shared Orders = let Source = Sql.Database(\"s\",\"d\") in Source;'') fn
   = Inr [\<lparr>name = str ''Orders'', code = str ''let Source = Sql.Database(\"s\",\"d\") in Source'',
           fileName = fn, dependencies = [str ''Database''], externalRefs = []\<rparr>]"
  by (simp add: eval_defs)

subsection \<open>C5: the single-query module\<close>

text \<open>
  C5 as stated fails: for the module text
  \<^verbatim>\<open>shared Orders = let Source = Sql.Database("s","d") in Source;\<close>
  the one query returned is named \<open>Orders\<close> and has no external reference, but its
  dependency list is \<open>["Database"]\<close>, not empty: \<open>Database\<close> follows the dot of
  \<open>Sql.\<close>, is not in the keyword set and is not followed by a dot.
\<close>

theorem orders_dependencies_counterexample:
  "parseMCodeFile (str ''shared Orders = let Source = Sql.Database(\"s\",\"d\") in Source;'')
     (str ''Book1.xlsx'')
   = Inr [\<lparr>name = str ''Orders'', code = str ''let Source = Sql.Database(\"s\",\"d\") in Source'',
           fileName = str ''Book1.xlsx'', dependencies = [str ''Database''], externalRefs = []\<rparr>]
   \<and> [str ''Database''] \<noteq> ([] :: jsstring list)"
  using orders_eval [of "str ''Book1.xlsx''"] by simp

text \<open>
  C5, amended. For that module text and every file name, \<open>parseMCodeFile\<close> returns
  exactly one query, named \<open>Orders\<close>, whose dependency list is exactly \<open>["Database"]\<close>
  and whose list of external references is empty.
\<close>

theorem orders_single_query:
  "\<exists>q. parseMCodeFile (str ''shared Orders = let Source = Sql.Database(\"s\",\"d\") in Source;'') fn
          = Inr [q]
      \<and> name q = str ''Orders'' \<and> fileName q = fn
      \<and> dependencies q = [str ''Database''] \<and> externalRefs q = []"
  using orders_eval [of fn] by simp

subsection \<open>C8: no query depends on itself\<close>

lemma set_setAdd: "set (setAdd d x) = insert x (set d)"
  by (auto simp add: setAdd_def)

lemma addIdent_self: "self \<notin> set d \<Longrightarrow> self \<notin> set (addIdent scan self d m)"
  by (auto simp add: addIdent_def set_setAdd split: option.splits)

lemma addQuoted_self: "self \<notin> set d \<Longrightarrow> self \<notin> set (addQuoted sc self d m)"
  by (auto simp add: addQuoted_def set_setAdd split: option.splits)

lemma foldl_addIdent_self:
  "self \<notin> set d \<Longrightarrow> self \<notin> set (foldl (addIdent scan self) d ms)"
  by (induction ms arbitrary: d) (simp_all add: addIdent_self)

lemma foldl_addQuoted_self:
  "self \<notin> set d \<Longrightarrow> self \<notin> set (foldl (addQuoted sc self) d ms)"
  by (induction ms arbitrary: d) (simp_all add: addQuoted_self)

lemma findDeps_self: "findDeps sc self = Inr d \<Longrightarrow> self \<notin> set d"
  by (auto simp add: findDeps_def jsBind_Inr_iff foldl_addQuoted_self foldl_addIdent_self)

lemma parseSegment_self:
  "parseSegment c stripped fn s e = Inr (Some q) \<Longrightarrow> name q \<notin> set (dependencies q)"
  by (auto simp add: parseSegment_def Let_def jsBind_Inr_iff split: option.splits dest: findDeps_self)

lemma parseSegments_self:
  "parseSegments c stripped fn ps = Inr qs \<Longrightarrow> \<forall>q\<in>set qs. name q \<notin> set (dependencies q)"
proof (induction ps arbitrary: qs)
  case Nil
  then show ?case by simp
next
  case (Cons s rest)
  then show ?case
    using parseSegment_self
    by (auto simp add: jsBind_Inr_iff split: option.splits)
qed

lemma parseMCodeFile_self:
  "parseMCodeFile mCode fn = Inr qs \<Longrightarrow> \<forall>q\<in>set qs. name q \<notin> set (dependencies q)"
  by (auto simp add: parseMCodeFile_def Let_def jsBind_Inr_iff split: if_splits
           dest: parseSegments_self findDeps_self)

lemma schemaQuery_self:
  "schemaQuery n expr fn = Inr q \<Longrightarrow> name q \<notin> set (dependencies q)"
  by (auto simp add: schemaQuery_def jsBind_Inr_iff dest: findDeps_self)

lemma dataModelQuery_self:
  "dataModelQuery e fn = Inr q \<Longrightarrow> name q \<notin> set (dependencies q)"
  by (auto simp add: dataModelQuery_def Let_def jsBind_Inr_iff dest: findDeps_self)

text \<open>
  C8. The name of a query is never among its dependencies: \<open>findDeps\<close> never returns
  its argument \<open>self\<close>, whether the reference is a plain identifier or a \<open>#"..."\<close>
  identifier (whose doubled quotes are resolved before the comparison), and every
  extraction path builds a query with \<open>findDeps\<close> called on the query's own name: the
  \<open>shared\<close> segments and the anonymous \<open>Query1\<close> of \<open>parseMCodeFile\<close>, the queries of
  the schema path and the queries of the data-model path.
\<close>

theorem dependencies_exclude_own_name:
  "(\<forall>d. findDeps sc self = Inr d \<longrightarrow> self \<notin> set d)
   \<and> (\<forall>qs. parseMCodeFile mCode fn = Inr qs \<longrightarrow> (\<forall>q\<in>set qs. name q \<notin> set (dependencies q)))
   \<and> (\<forall>q. schemaQuery n expr fn = Inr q \<longrightarrow> name q \<notin> set (dependencies q))
   \<and> (\<forall>q. dataModelQuery e fn = Inr q \<longrightarrow> name q \<notin> set (dependencies q))"
  using findDeps_self parseMCodeFile_self schemaQuery_self dataModelQuery_self
  by blast

lemma quoted_self_eval:
  "parseMCodeFile (str ''shared #\"A \"\"B\"\"\" = #\"A \"\"B\"\"\" + C;'') fn
   = Inr [\<lparr>name = str ''A \"B\"'', code = str ''#\"A \"\"B\"\"\" + C'', fileName = fn,
           dependencies = [str ''C''], externalRefs = []\<rparr>]"
  by (simp add: eval_defs)

lemma quoted_self_parts:
  "findDeps (str ''#\"A \"\"B\"\"\" + C'') (str ''A \"B\"'') = Inr [str ''C'']"
  "schemaQuery (str ''A \"B\"'') (str ''#\"A \"\"B\"\"\" + C'') (str ''m.pbix'')
   = Inr \<lparr>name = str ''A \"B\"'', code = str ''#\"A \"\"B\"\"\" + C'', fileName = str ''m.pbix'',
          dependencies = [str ''C''], externalRefs = []\<rparr>"
  "dataModelQuery \<lparr>entryName = Some (str ''A \"B\"''), entryMCode = Some (str ''#\"A \"\"B\"\"\" + C'')\<rparr>
     (str ''m.pbix'')
   = Inr \<lparr>name = str ''A \"B\"'', code = str ''#\"A \"\"B\"\"\" + C'', fileName = str ''m.pbix'',
          dependencies = [str ''C''], externalRefs = []\<rparr>"
  by (simp_all add: eval_defs schemaQuery_def dataModelQuery_def)

theorem dependencies_exclude_own_name_witness:
  "parseMCodeFile (str ''shared #\"A \"\"B\"\"\" = #\"A \"\"B\"\"\" + C;'') (str ''m.pbix'')
     = Inr [\<lparr>name = str ''A \"B\"'', code = str ''#\"A \"\"B\"\"\" + C'', fileName = str ''m.pbix'',
             dependencies = [str ''C''], externalRefs = []\<rparr>]
   \<and> str ''A \"B\"'' \<notin> set [str ''C'']"
  using dependencies_exclude_own_name
          [of "str ''#\"A \"\"B\"\"\" + C''" "str ''A \"B\"''"
              "str ''shared #\"A \"\"B\"\"\" = #\"A \"\"B\"\"\" + C;''" "str ''m.pbix''"
              "str ''A \"B\"''" "str ''#\"A \"\"B\"\"\" + C''"
              "\<lparr>entryName = Some (str ''A \"B\"''), entryMCode = Some (str ''#\"A \"\"B\"\"\" + C'')\<rparr>"]
        quoted_self_eval [of "str ''m.pbix''"] quoted_self_parts
  by simp

subsection \<open>C6: the fallback to the signature scan, and no exception\<close>

lemma tryCatch_returns: "m \<noteq> Inl NoReturn \<Longrightarrow> \<exists>v. tryCatch m d = Inr v"
  by (cases m) (auto simp add: tryCatch_def split: js_error.splits)

lemma lib_no_loop: "lib r \<noteq> Inl NoReturn"
  by (cases r) (simp_all add: lib_def)

lemma jsBind_no_loop:
  "m \<noteq> Inl NoReturn \<Longrightarrow> (\<And>v. f v \<noteq> Inl NoReturn) \<Longrightarrow> jsBind m f \<noteq> Inl NoReturn"
  by (cases m) (simp_all add: jsBind_def)

lemma extractMCodeFromZipLoop_returns:
  "\<exists>st'. extractMCodeFromZipLoop fn es st = Inr st'"
proof (induction es arbitrary: st)
  case Nil
  show ?case by simp
next
  case (Cons e es)
  let ?m = "jsBind (jsBind (lib (asyncString e)) (\<lambda>txt. parseMCodeFile txt fn))
               (\<lambda>xs. Inr (addUnique st xs))"
  have m: "?m \<noteq> Inl NoReturn"
  proof (rule jsBind_no_loop)
    show "jsBind (lib (asyncString e)) (\<lambda>txt. parseMCodeFile txt fn) \<noteq> Inl NoReturn"
      by (rule jsBind_no_loop) (rule lib_no_loop, rule parseMCodeFile_no_loop)
  qed simp
  obtain v where v: "tryCatch ?m st = Inr v"
    using tryCatch_returns [OF m, of st] by blast
  show ?case
  proof (cases "startsWith (zpath e) (str ''Formulas/'') \<and> endsWith (zpath e) (str ''.m'') \<and> \<not> zdir e")
    case True
    then have "extractMCodeFromZipLoop fn (e # es) st = extractMCodeFromZipLoop fn es v"
      using v by (simp add: jsBind_def)
    then show ?thesis
      using Cons by simp
  next
    case False
    then have "extractMCodeFromZipLoop fn (e # es) st = extractMCodeFromZipLoop fn es st"
      by auto
    then show ?thesis
      using Cons by simp
  qed
qed

lemma extractMCodeFromZip_returns: "\<exists>qs. extractMCodeFromZip z fn = Inr qs"
proof -
  obtain st' where "extractMCodeFromZipLoop fn z ([], {}) = Inr st'"
    using extractMCodeFromZipLoop_returns [of fn z "([], {})"] by blast
  then show ?thesis
    by (simp add: extractMCodeFromZip_def jsBind_def)
qed

lemma extractMCodeFromZip_no_loop: "extractMCodeFromZip z fn \<noteq> Inl NoReturn"
  using extractMCodeFromZip_returns [of z fn] by auto

lemma openArchive_no_loop:
  "jsBind (lib (loadAsync x)) (\<lambda>z. extractMCodeFromZip z fn) \<noteq> Inl NoReturn"
  by (rule jsBind_no_loop) (rule lib_no_loop, rule extractMCodeFromZip_no_loop)

lemma openArchive_caught:
  "tryCatch (jsBind (lib (loadAsync x)) (\<lambda>z. extractMCodeFromZip z fn)) []
     = (case loadAsync x of Inl msg \<Rightarrow> Inr [] | Inr z \<Rightarrow> extractMCodeFromZip z fn)"
proof (cases "loadAsync x")
  case (Inl msg)
  then show ?thesis
    by (simp add: lib_def jsBind_def tryCatch_def)
next
  case (Inr z)
  obtain qs where "extractMCodeFromZip z fn = Inr qs"
    using extractMCodeFromZip_returns [of z fn] by blast
  then show ?thesis
    using Inr by (simp add: lib_def jsBind_def tryCatch_def)
qed

lemma openArchive_caught_returns:
  "\<exists>qs. tryCatch (jsBind (lib (loadAsync x)) (\<lambda>z. extractMCodeFromZip z fn)) [] = Inr qs"
  by (rule tryCatch_returns [OF openArchive_no_loop])

lemma extractFromDataMashup_returns: "\<exists>qs. extractFromDataMashup loadAsync b fn = Inr qs"
proof (cases "length b < 8")
  case True
  then show ?thesis by (simp add: extractFromDataMashup_def)
next
  case False
  define first where "first = (let v = readU32 b 0; n = readU32 b 4
                  in if v = 0 \<and> 0 < n \<and> int (unat n) \<le> int (length b) - 8
                     then jsBind (lib (loadAsync (take (unat n) (drop 8 b))))
                                 (\<lambda>z. extractMCodeFromZip z fn)
                     else Inr [])"
  have f: "first \<noteq> Inl NoReturn"
    unfolding first_def Let_def by (simp add: openArchive_no_loop)
  obtain q where q: "tryCatch first [] = Inr q"
    using tryCatch_returns [OF f, of "[]"] by blast
  obtain q2 where q2: "tryCatch (jsBind (lib (loadAsync (drop (nat (findPK b)) b)))
                                               (\<lambda>z. extractMCodeFromZip z fn)) [] = Inr q2"
    using openArchive_caught_returns [of loadAsync "drop (nat (findPK b)) b" fn] by blast
  have "extractFromDataMashup loadAsync b fn
         = jsBind (tryCatch first [])
          (\<lambda>q. if q = []
                then (let s = findPK b
                      in if 0 \<le> s
                         then tryCatch (jsBind (lib (loadAsync (drop (nat s) b)))
                                               (\<lambda>z. extractMCodeFromZip z fn)) []
                         else Inr [])
                else Inr q)"
    using False unfolding extractFromDataMashup_def first_def by simp
  then show ?thesis
    using q q2 by (simp add: jsBind_def Let_def)
qed

lemma findPKLoop_first:
  assumes "signatureAt b s" "s + 4 < length b" "i \<le> s"
  shows "\<exists>s0. i \<le> s0 \<and> s0 \<le> s \<and> findPKLoop b i = int s0 \<and> signatureAt b s0
              \<and> (\<forall>j. i \<le> j \<and> j < s0 \<longrightarrow> \<not> signatureAt b j)"
  using assms(3)
proof (induction "s - i" arbitrary: i)
  case 0
  then have "i = s" by simp
  then show ?case
    using assms(1,2) by (subst findPKLoop.simps) (auto simp add: signatureAt_def)
next
  case (Suc d)
  then have lt: "i < s" by simp
  show ?case
  proof (cases "signatureAt b i")
    case True
    then show ?thesis
      using lt assms(2) by (subst findPKLoop.simps) (auto simp add: signatureAt_def)
  next
    case False
    have "d = s - Suc i" "Suc i \<le> s" using Suc(2) lt by simp_all
    from Suc(1) [OF this] obtain s0 where s0: "Suc i \<le> s0" "s0 \<le> s" "findPKLoop b (Suc i) = int s0"
      "signatureAt b s0" "\<forall>j. Suc i \<le> j \<and> j < s0 \<longrightarrow> \<not> signatureAt b j"
      by blast
    have "findPKLoop b i = findPKLoop b (Suc i)"
      using False lt assms(2) by (subst findPKLoop.simps) (auto simp add: signatureAt_def)
    moreover have "\<forall>j. i \<le> j \<and> j < s0 \<longrightarrow> \<not> signatureAt b j"
      using s0(5) False by (metis Suc_leI le_neq_implies_less)
    ultimately show ?thesis
      using s0 by (intro exI [of _ s0]) auto
  qed
qed

text \<open>
  C6. For every buffer and every archive reader, \<open>extractFromDataMashup\<close> returns a
  list of queries: it neither throws nor fails to return. If the buffer has at least 8
  bytes, its length field exceeds the bytes that follow the 8-byte header, and the
  archive signature occurs at some offset \<open>s\<close> with at least one byte after it, then
  \<open>findPK\<close> returns the first offset \<open>s0\<close> at which the signature occurs and the
  result is what the archive opened at \<open>s0\<close> yields: the queries of its source files,
  or none when the reader rejects it.
\<close>

theorem mashup_fallback_scan:
  "(\<exists>qs. extractFromDataMashup loadAsync b fn = Inr qs)
   \<and> (8 \<le> length b \<and> length b - 8 < unat (readU32 b 4) \<and> signatureAt b s \<and> s + 4 < length b \<longrightarrow>
        (\<exists>s0 \<le> s. signatureAt b s0 \<and> (\<forall>j < s0. \<not> signatureAt b j) \<and> findPK b = int s0
           \<and> extractFromDataMashup loadAsync b fn
               = (case loadAsync (drop s0 b) of
                    Inl msg \<Rightarrow> Inr []
                  | Inr z \<Rightarrow> extractMCodeFromZip z fn)))"
proof (intro conjI impI)
  show "\<exists>qs. extractFromDataMashup loadAsync b fn = Inr qs"
    by (rule extractFromDataMashup_returns)
next
  assume a: "8 \<le> length b \<and> length b - 8 < unat (readU32 b 4) \<and> signatureAt b s \<and> s + 4 < length b"
  then obtain s0 where s0: "s0 \<le> s" "findPKLoop b 0 = int s0" "signatureAt b s0"
      "\<forall>j. 0 \<le> j \<and> j < s0 \<longrightarrow> \<not> signatureAt b j"
    using findPKLoop_first [of b s 0] by auto
  have n: "\<not> int (unat (readU32 b 4)) \<le> int (length b) - 8"
    using a by linarith
  have first: "(let v = readU32 b 0; n = readU32 b 4
                  in if v = 0 \<and> 0 < n \<and> int (unat n) \<le> int (length b) - 8
                     then jsBind (lib (loadAsync (take (unat n) (drop 8 b))))
                                 (\<lambda>z. extractMCodeFromZip z fn)
                     else Inr []) = Inr []"
    using n by (simp only: Let_def) simp
  have len: "\<not> length b < 8"
    using a by simp
  have pk: "findPK b = int s0"
    using s0(2) by (simp add: findPK_def)
  have "extractFromDataMashup loadAsync b fn
          = tryCatch (jsBind (lib (loadAsync (drop s0 b))) (\<lambda>z. extractMCodeFromZip z fn)) []"
    unfolding extractFromDataMashup_def first
    using len pk by (simp add: tryCatch_def jsBind_def)
  then have "extractFromDataMashup loadAsync b fn
               = (case loadAsync (drop s0 b) of
                    Inl msg \<Rightarrow> Inr []
                  | Inr z \<Rightarrow> extractMCodeFromZip z fn)"
    by (simp only: openArchive_caught)
  then show "\<exists>s0 \<le> s. signatureAt b s0 \<and> (\<forall>j < s0. \<not> signatureAt b j) \<and> findPK b = int s0
           \<and> extractFromDataMashup loadAsync b fn
               = (case loadAsync (drop s0 b) of
                    Inl msg \<Rightarrow> Inr []
                  | Inr z \<Rightarrow> extractMCodeFromZip z fn)"
    using s0 pk by blast
qed

lemma sample_hypotheses:
  "8 \<le> length sampleMashup \<and> length sampleMashup - 8 < unat (readU32 sampleMashup 4)
   \<and> signatureAt sampleMashup 20 \<and> 20 + 4 < length sampleMashup"
  by (simp add: sampleMashup_def readU32_def js_byte_def signatureAt_def)

lemma single_query_eval:
  "parseMCodeFile (str ''shared A = 1;'') fn
   = Inr [\<lparr>name = str ''A'', code = str ''1'', fileName = fn, dependencies = [], externalRefs = []\<rparr>]"
  by (simp add: eval_defs)

lemma sample_findPK: "findPK sampleMashup = 20"
  by (simp add: sampleMashup_def findPK_def findPKLoop.simps)

lemma sample_mashup_eval:
  "extractFromDataMashup sampleLoader sampleMashup fn
   = Inr [\<lparr>name = str ''A'', code = str ''1'', fileName = fn, dependencies = [], externalRefs = []\<rparr>]"
  using sample_hypotheses sample_findPK
  apply (simp add: extractFromDataMashup_def Let_def tryCatch_def jsBind_def lib_def)
  apply (simp add: sampleMashup_def sampleLoader_def extractMCodeFromZip_def tryCatch_def jsBind_def
           lib_def single_query_eval addUnique_def addUniqueOne_def)
  apply (simp add: startsWith_def endsWith_def str_def)
  done

theorem mashup_fallback_scan_witness:
  "(\<exists>qs. extractFromDataMashup sampleLoader sampleMashup (str ''Book1.xlsx'') = Inr qs)
   \<and> (\<exists>s0 \<le> 20. signatureAt sampleMashup s0 \<and> (\<forall>j < s0. \<not> signatureAt sampleMashup j)
          \<and> findPK sampleMashup = int s0
          \<and> extractFromDataMashup sampleLoader sampleMashup (str ''Book1.xlsx'')
               = (case sampleLoader (drop s0 sampleMashup) of
                    Inl msg \<Rightarrow> Inr []
                  | Inr z \<Rightarrow> extractMCodeFromZip z (str ''Book1.xlsx'')))
   \<and> extractFromDataMashup sampleLoader sampleMashup (str ''Book1.xlsx'')
       = Inr [\<lparr>name = str ''A'', code = str ''1'', fileName = str ''Book1.xlsx'',
               dependencies = [], externalRefs = []\<rparr>]"
  using mashup_fallback_scan [of sampleLoader sampleMashup "str ''Book1.xlsx''" 20]
        sample_hypotheses sample_mashup_eval [of "str ''Book1.xlsx''"]
  by blast

subsection \<open>C9: no two queries of a container share a key\<close>

lemma addUniqueOne_inv:
  assumes "snd st = queryKey ` set (fst st)" "distinct (map queryKey (fst st))"
  shows "snd (addUniqueOne st q) = queryKey ` set (fst (addUniqueOne st q))
         \<and> distinct (map queryKey (fst (addUniqueOne st q)))"
  using assms by (auto simp add: addUniqueOne_def)

lemma addUnique_inv:
  assumes "snd st = queryKey ` set (fst st)" "distinct (map queryKey (fst st))"
  shows "snd (addUnique st nq) = queryKey ` set (fst (addUnique st nq))
         \<and> distinct (map queryKey (fst (addUnique st nq)))"
  using assms unfolding addUnique_def
proof (induction nq arbitrary: st)
  case Nil
  then show ?case by simp
next
  case (Cons q nq)
  have "snd (addUniqueOne st q) = queryKey ` set (fst (addUniqueOne st q))
         \<and> distinct (map queryKey (fst (addUniqueOne st q)))"
    using Cons.prems by (rule addUniqueOne_inv)
  then show ?case
    using Cons.IH [of "addUniqueOne st q"] by simp
qed

lemma addUnique_keepFirst:
  "fst (addUnique st nq) = fst st @ keepFirstByKey (filter (\<lambda>x. queryKey x \<notin> snd st) nq)"
  unfolding addUnique_def
proof (induction nq arbitrary: st)
  case Nil
  show ?case by simp
next
  case (Cons q nq)
  show ?case
  proof (cases "queryKey q \<in> snd st")
    case True
    then show ?thesis
      using Cons [of st] by (simp add: addUniqueOne_def)
  next
    case False
    have f: "filter (\<lambda>x. queryKey x \<notin> snd st \<and> queryKey x \<noteq> queryKey q) nq
           = filter (\<lambda>x. queryKey x \<noteq> queryKey q \<and> queryKey x \<notin> snd st) nq"
      by (rule filter_cong) auto
    show ?thesis
      using False Cons [of "(fst st @ [q], insert (queryKey q) (snd st))"]
      by (simp add: addUniqueOne_def f)
  qed
qed

lemma addUniqueTo_ok: "keysOk st \<Longrightarrow> keysOk (addUniqueTo st nq)"
  using addUnique_inv [of "(queries st, seen st)" nq]
  by (simp add: keysOk_def addUniqueTo_def Let_def)

lemma keysOk_errors: "keysOk st \<Longrightarrow> keysOk (st\<lparr>errors := x\<rparr>)"
  by (simp add: keysOk_def)

lemma tryAdd_ok:
  assumes "keysOk st" "tryAdd p st m = Inr st'"
  shows "keysOk st'"
proof (cases m)
  case (Inl e)
  then have "st' = st\<lparr>errors := errors st @ [(p, e)]\<rparr>"
    using assms(2) by (cases e) (simp_all add: tryAdd_def)
  then show ?thesis
    using assms(1) by (simp add: keysOk_errors)
next
  case (Inr nq)
  then have "st' = addUniqueTo st nq"
    using assms(2) by (simp add: tryAdd_def)
  then show ?thesis
    using assms(1) by (simp add: addUniqueTo_ok)
qed

lemma tryAddQuiet_ok:
  assumes "keysOk st" "tryAddQuiet st m = Inr st'"
  shows "keysOk st'"
proof (cases m)
  case (Inl e)
  then have "st' = st"
    using assms(2) by (cases e) (simp_all add: tryAddQuiet_def)
  then show ?thesis
    using assms(1) by simp
next
  case (Inr nq)
  then have "st' = addUniqueTo st nq"
    using assms(2) by (simp add: tryAddQuiet_def)
  then show ?thesis
    using assms(1) by (simp add: addUniqueTo_ok)
qed

lemma jsBind_Inr_D: "jsBind m f = Inr y \<Longrightarrow> \<exists>v. m = Inr v \<and> f v = Inr y"
  by (cases m) (simp_all add: jsBind_def)

lemma xlsxBinLoop_ok:
  "keysOk st \<Longrightarrow> xlsxBinLoop ld fname es st = Inr st' \<Longrightarrow> keysOk st'"
proof (induction es arbitrary: st)
  case Nil
  then show ?case by simp
next
  case (Cons e es)
  show ?case
  proof (cases "startsWith (zpath e) (str ''customXml/'') \<and> endsWith (zpath e) (str ''.bin'')")
    case True
    then obtain v where v: "tryAdd (zpath e) st
                     (jsBind (lib (asyncArrayBuffer e)) (\<lambda>buf. extractFromDataMashup ld buf fname)) = Inr v"
       "xlsxBinLoop ld fname es v = Inr st'"
      using Cons.prems(2) jsBind_Inr_D by fastforce
    show ?thesis
      using Cons.IH [OF tryAdd_ok [OF Cons.prems(1) v(1)] v(2)] .
  next
    case False
    then show ?thesis
      using Cons by auto
  qed
qed

lemma xlsxXmlLoop_ok:
  "keysOk st \<Longrightarrow> xlsxXmlLoop cx fname es st = Inr st' \<Longrightarrow> keysOk st'"
proof (induction es arbitrary: st)
  case Nil
  then show ?case by simp
next
  case (Cons e es)
  show ?case
  proof (cases "firstMatch reCustomXmlItem (zpath e) 0 \<noteq> None")
    case True
    then obtain v where v: "tryAddQuiet st
                     (jsBind (lib (asyncArrayBuffer e)) (\<lambda>buf. cx buf fname)) = Inr v"
       "xlsxXmlLoop cx fname es v = Inr st'"
      using Cons.prems(2) jsBind_Inr_D by fastforce
    show ?thesis
      using Cons.IH [OF tryAddQuiet_ok [OF Cons.prems(1) v(1)] v(2)] .
  next
    case False
    then show ?thesis
      using Cons by auto
  qed
qed

lemma keysOk_empty: "keysOk \<lparr>queries = [], seen = {}, errors = []\<rparr>"
  by (simp add: keysOk_def)

lemma xlsxConnections_ok:
  "keysOk st \<Longrightarrow> xlsxConnections pc files fname st = Inr st' \<Longrightarrow> keysOk st'"
  using tryAdd_ok [of st]
  by (auto simp add: xlsxConnections_def split: option.splits if_splits)

lemma parseXlsxFile_ok:
  assumes "parseXlsxFile ld cx pc files fname = Inr st"
  shows "keysOk st"
proof -
  obtain st1 where
    s1: "xlsxBinLoop ld fname files \<lparr>queries = [], seen = {}, errors = []\<rparr> = Inr st1" and
    r1: "jsBind (xlsxXmlLoop cx fname files st1) (\<lambda>st2. xlsxConnections pc files fname st2) = Inr st"
    using jsBind_Inr_D [OF assms [unfolded parseXlsxFile_def]] by blast
  obtain st2 where
    s2: "xlsxXmlLoop cx fname files st1 = Inr st2" and
    s3: "xlsxConnections pc files fname st2 = Inr st"
    using jsBind_Inr_D [OF r1] by blast
  show ?thesis
    using xlsxConnections_ok [OF xlsxXmlLoop_ok [OF xlsxBinLoop_ok [OF keysOk_empty s1] s2] s3] .
qed

lemma pbixDataMashup_ok: "pbixDataMashup ld files fname = Inr st \<Longrightarrow> keysOk st"
  using tryAdd_ok [OF keysOk_empty] keysOk_empty
  by (auto simp add: pbixDataMashup_def split: option.splits)

lemma pbixDataModelSchema_ok:
  "keysOk st \<Longrightarrow> pbixDataModelSchema sch files fname st = Inr st' \<Longrightarrow> keysOk st'"
  using tryAdd_ok [of st]
  by (auto simp add: pbixDataModelSchema_def split: option.splits if_splits)

lemma pbixDataModel_ok:
  "keysOk st \<Longrightarrow> pbixDataModel dm files fname st = Inr st' \<Longrightarrow> keysOk st'"
  using tryAdd_ok [of st] keysOk_errors [of st]
  by (auto simp add: pbixDataModel_def split: option.splits if_splits)

lemma parsePbixFile_ok:
  assumes "parsePbixFile ld sch dm files fname = Inr st"
  shows "keysOk st"
proof -
  obtain st1 where
    s1: "pbixDataMashup ld files fname = Inr st1" and
    r1: "jsBind (pbixDataModelSchema sch files fname st1) (\<lambda>st2. pbixDataModel dm files fname st2) = Inr st"
    using jsBind_Inr_D [OF assms [unfolded parsePbixFile_def]] by blast
  obtain st2 where
    s2: "pbixDataModelSchema sch files fname st1 = Inr st2" and
    s3: "pbixDataModel dm files fname st2 = Inr st"
    using jsBind_Inr_D [OF r1] by blast
  show ?thesis
    using pbixDataModel_ok [OF pbixDataModelSchema_ok [OF pbixDataMashup_ok [OF s1] s2] s3] .
qed

lemma distinct_pairs:
  "distinct (map queryKey qs) \<Longrightarrow> distinct (map (\<lambda>q. (fileName q, name q)) qs)"
proof (induction qs)
  case Nil
  show ?case by simp
next
  case (Cons q qs)
  have "(fileName q, name q) \<notin> (\<lambda>x. (fileName x, name x)) ` set qs"
  proof
    assume "(fileName q, name q) \<in> (\<lambda>x. (fileName x, name x)) ` set qs"
    then obtain x where x: "x \<in> set qs" "fileName x = fileName q" "name x = name q"
      by auto
    then have "queryKey x = queryKey q"
      by (simp add: queryKey_def)
    then have "queryKey q \<in> queryKey ` set qs"
      using x(1) by (metis imageI)
    then show False
      using Cons.prems by simp
  qed
  then show ?case
    using Cons by simp
qed

lemma addUnique_seen: "snd (addUnique st nq) = snd st \<union> queryKey ` set nq"
  unfolding addUnique_def
proof (induction nq arbitrary: st)
  case Nil
  show ?case by simp
next
  case (Cons q nq)
  show ?case
    using Cons [of "addUniqueOne st q"] by (auto simp add: addUniqueOne_def)
qed

lemma keepFirstByKey_keys: "queryKey ` set (keepFirstByKey P) = queryKey ` set P"
proof (induction P rule: keepFirstByKey.induct)
  case 1
  show ?case by simp
next
  case (2 q qs)
  then show ?case by auto
qed

lemma keepFirstByKey_append:
  "keepFirstByKey (P @ nq)
   = keepFirstByKey P @ keepFirstByKey (filter (\<lambda>x. queryKey x \<notin> queryKey ` set P) nq)"
proof (induction P arbitrary: nq rule: keepFirstByKey.induct)
  case 1
  show ?case by simp
next
  case (2 q qs)
  let ?P' = "filter (\<lambda>x. queryKey x \<noteq> queryKey q) qs"
  let ?nq' = "filter (\<lambda>x. queryKey x \<noteq> queryKey q) nq"
  have f: "filter (\<lambda>x. queryKey x \<notin> queryKey ` set ?P') ?nq'
         = filter (\<lambda>x. queryKey x \<notin> queryKey ` set (q # qs)) nq"
    unfolding filter_filter by (rule filter_cong) auto
  have "keepFirstByKey ((q # qs) @ nq) = q # keepFirstByKey (?P' @ ?nq')"
    by simp
  also have "\<dots> = q # keepFirstByKey ?P' @ keepFirstByKey (filter (\<lambda>x. queryKey x \<notin> queryKey ` set ?P') ?nq')"
    using 2 [of ?nq'] by simp
  finally show ?case
    by (simp only: f keepFirstByKey.simps append_Cons)
qed

lemma keepFirstByKey_Nil: "(keepFirstByKey P = []) = (P = [])"
  by (cases P) simp_all

lemma keepFirstByKey_distinct: "distinct (map queryKey (keepFirstByKey P))"
proof (induction P rule: keepFirstByKey.induct)
  case 1
  show ?case by simp
next
  case (2 q qs)
  have "queryKey q \<notin> queryKey ` set (keepFirstByKey (filter (\<lambda>x. queryKey x \<noteq> queryKey q) qs))"
    unfolding keepFirstByKey_keys by auto
  then show ?case
    using 2 by simp
qed

lemma collected_empty: "collected \<lparr>queries = [], seen = {}, errors = []\<rparr> []"
  by (simp add: collected_def)

lemma collected_Nil: "collected st P \<Longrightarrow> (queries st = []) = (P = [])"
  by (simp add: collected_def keepFirstByKey_Nil)

lemma collected_errors: "collected st P \<Longrightarrow> collected (st\<lparr>errors := x\<rparr>) P"
  by (simp add: collected_def)

lemma addUniqueTo_collected:
  assumes "collected st P"
  shows "collected (addUniqueTo st nq) (P @ nq)"
proof -
  have "queries (addUniqueTo st nq)
        = queries st @ keepFirstByKey (filter (\<lambda>x. queryKey x \<notin> seen st) nq)"
    using addUnique_keepFirst [of "(queries st, seen st)" nq]
    by (simp add: addUniqueTo_def Let_def)
  then have q: "queries (addUniqueTo st nq) = keepFirstByKey (P @ nq)"
    using assms by (simp add: collected_def keepFirstByKey_append)
  have "seen (addUniqueTo st nq) = seen st \<union> queryKey ` set nq"
    using addUnique_seen [of "(queries st, seen st)" nq]
    by (simp add: addUniqueTo_def Let_def)
  then have "seen (addUniqueTo st nq) = queryKey ` set (P @ nq)"
    using assms by (auto simp add: collected_def)
  with q show ?thesis
    by (simp add: collected_def)
qed

lemma tryAdd_collected:
  assumes "collected st P" "tryAdd p st m = Inr st'"
  shows "collected st' (P @ pathQueries m)"
proof (cases m)
  case (Inl e)
  then have "st' = st\<lparr>errors := errors st @ [(p, e)]\<rparr>"
    using assms(2) by (cases e) (simp_all add: tryAdd_def)
  then show ?thesis
    using assms(1) Inl by (simp add: collected_errors pathQueries_def)
next
  case (Inr nq)
  then have "st' = addUniqueTo st nq"
    using assms(2) by (simp add: tryAdd_def)
  then show ?thesis
    using assms(1) Inr by (simp add: addUniqueTo_collected pathQueries_def)
qed

lemma tryAddQuiet_collected:
  assumes "collected st P" "tryAddQuiet st m = Inr st'"
  shows "collected st' (P @ pathQueries m)"
proof (cases m)
  case (Inl e)
  then have "st' = st"
    using assms(2) by (cases e) (simp_all add: tryAddQuiet_def)
  then show ?thesis
    using assms(1) Inl by (simp add: pathQueries_def)
next
  case (Inr nq)
  then have "st' = addUniqueTo st nq"
    using assms(2) by (simp add: tryAddQuiet_def)
  then show ?thesis
    using assms(1) Inr by (simp add: addUniqueTo_collected pathQueries_def)
qed

lemma xlsxBinLoop_collected:
  "collected st P \<Longrightarrow> xlsxBinLoop ld fname es st = Inr st' \<Longrightarrow>
   collected st' (P @ xlsxBinQueries ld fname es)"
proof (induction es arbitrary: st P)
  case Nil
  then show ?case by (simp add: xlsxBinQueries_def)
next
  case (Cons e es)
  show ?case
  proof (cases "startsWith (zpath e) (str ''customXml/'') \<and> endsWith (zpath e) (str ''.bin'')")
    case True
    let ?m = "jsBind (lib (asyncArrayBuffer e)) (\<lambda>buf. extractFromDataMashup ld buf fname)"
    obtain v where v: "tryAdd (zpath e) st ?m = Inr v" "xlsxBinLoop ld fname es v = Inr st'"
      using Cons.prems(2) True jsBind_Inr_D by fastforce
    have q: "xlsxBinQueries ld fname (e # es) = pathQueries ?m @ xlsxBinQueries ld fname es"
      using True by (simp add: xlsxBinQueries_def)
    have "collected st' ((P @ pathQueries ?m) @ xlsxBinQueries ld fname es)"
      using Cons.IH [OF tryAdd_collected [OF Cons.prems(1) v(1)] v(2)] .
    then show ?thesis
      by (simp only: q append_assoc)
  next
    case False
    then have "xlsxBinLoop ld fname es st = Inr st'"
      using Cons.prems(2) by auto
    then have "collected st' (P @ xlsxBinQueries ld fname es)"
      using Cons.IH [OF Cons.prems(1)] by simp
    moreover have "xlsxBinQueries ld fname (e # es) = xlsxBinQueries ld fname es"
      using False by (auto simp add: xlsxBinQueries_def)
    ultimately show ?thesis
      by simp
  qed
qed

lemma xlsxXmlLoop_collected:
  "collected st P \<Longrightarrow> xlsxXmlLoop cx fname es st = Inr st' \<Longrightarrow>
   collected st' (P @ xlsxXmlQueries cx fname es)"
proof (induction es arbitrary: st P)
  case Nil
  then show ?case by (simp add: xlsxXmlQueries_def)
next
  case (Cons e es)
  show ?case
  proof (cases "firstMatch reCustomXmlItem (zpath e) 0 \<noteq> None")
    case True
    let ?m = "jsBind (lib (asyncArrayBuffer e)) (\<lambda>buf. cx buf fname)"
    obtain v where v: "tryAddQuiet st ?m = Inr v" "xlsxXmlLoop cx fname es v = Inr st'"
      using Cons.prems(2) True jsBind_Inr_D by fastforce
    have q: "xlsxXmlQueries cx fname (e # es) = pathQueries ?m @ xlsxXmlQueries cx fname es"
      using True by (simp add: xlsxXmlQueries_def)
    have "collected st' ((P @ pathQueries ?m) @ xlsxXmlQueries cx fname es)"
      using Cons.IH [OF tryAddQuiet_collected [OF Cons.prems(1) v(1)] v(2)] .
    then show ?thesis
      by (simp only: q append_assoc)
  next
    case False
    then have "xlsxXmlLoop cx fname es st = Inr st'"
      using Cons.prems(2) by auto
    then have "collected st' (P @ xlsxXmlQueries cx fname es)"
      using Cons.IH [OF Cons.prems(1)] by simp
    moreover have "xlsxXmlQueries cx fname (e # es) = xlsxXmlQueries cx fname es"
      using False by (simp add: xlsxXmlQueries_def)
    ultimately show ?thesis
      by simp
  qed
qed

lemma xlsxConnections_collected:
  assumes "collected st P" "xlsxConnections pc files fname st = Inr st'"
  shows "collected st'
           (if P \<noteq> [] then P
            else (case zipFile files (str ''xl/connections.xml'') of
                    Some e \<Rightarrow> pathQueries (jsBind (lib (asyncString e)) (\<lambda>xml. pc xml fname))
                  | None \<Rightarrow> []))"
proof (cases "zipFile files (str ''xl/connections.xml'')")
  case None
  then have "st' = st"
    using assms(2) by (simp add: xlsxConnections_def)
  then show ?thesis
    using assms(1) None by (cases "P = []") simp_all
next
  case (Some e)
  show ?thesis
  proof (cases "P = []")
    case True
    then have "queries st = []"
      using collected_Nil [OF assms(1)] by simp
    then have "tryAdd (str ''connections.xml'') st
                 (jsBind (lib (asyncString e)) (\<lambda>xml. pc xml fname)) = Inr st'"
      using assms(2) Some by (simp add: xlsxConnections_def)
    from tryAdd_collected [OF assms(1) this] show ?thesis
      using True Some by simp
  next
    case False
    then have "queries st \<noteq> []"
      using collected_Nil [OF assms(1)] by simp
    then have "st' = st"
      using assms(2) Some by (simp add: xlsxConnections_def)
    then show ?thesis
      using assms(1) False by simp
  qed
qed

lemma parseXlsxFile_collected:
  assumes "parseXlsxFile ld cx pc files fname = Inr st"
  shows "collected st (xlsxProduced ld cx pc files fname)"
proof -
  obtain st1 where
    s1: "xlsxBinLoop ld fname files \<lparr>queries = [], seen = {}, errors = []\<rparr> = Inr st1" and
    r1: "jsBind (xlsxXmlLoop cx fname files st1) (\<lambda>st2. xlsxConnections pc files fname st2) = Inr st"
    using jsBind_Inr_D [OF assms [unfolded parseXlsxFile_def]] by blast
  obtain st2 where
    s2: "xlsxXmlLoop cx fname files st1 = Inr st2" and
    s3: "xlsxConnections pc files fname st2 = Inr st"
    using jsBind_Inr_D [OF r1] by blast
  have c1: "collected st1 (xlsxBinQueries ld fname files)"
    using xlsxBinLoop_collected [OF collected_empty s1] by simp
  have c2: "collected st2 (xlsxBinQueries ld fname files @ xlsxXmlQueries cx fname files)"
    using xlsxXmlLoop_collected [OF c1 s2] .
  show ?thesis
    using xlsxConnections_collected [OF c2 s3]
    by (simp only: xlsxProduced_def Let_def)
qed

lemma pbixDataMashup_collected:
  assumes "pbixDataMashup ld files fname = Inr st"
  shows "collected st
           (case (case zipFile files (str ''DataMashup'') of
                        Some e \<Rightarrow> Some e
                      | None \<Rightarrow> zipFile files (str ''datamashup'')) of
                  Some dmEntry \<Rightarrow>
                    pathQueries (jsBind (lib (asyncArrayBuffer dmEntry))
                                   (\<lambda>buf. extractFromDataMashup ld buf fname))
                | None \<Rightarrow> [])"
proof (cases "case zipFile files (str ''DataMashup'') of
                        Some e \<Rightarrow> Some e
                      | None \<Rightarrow> zipFile files (str ''datamashup'')")
  case None
  then have "st = \<lparr>queries = [], seen = {}, errors = []\<rparr>"
    using assms by (simp add: pbixDataMashup_def)
  then show ?thesis
    using None collected_empty by simp
next
  case (Some dmEntry)
  then have "tryAdd (str ''DataMashup'') \<lparr>queries = [], seen = {}, errors = []\<rparr>
            (jsBind (lib (asyncArrayBuffer dmEntry))
                    (\<lambda>buf. extractFromDataMashup ld buf fname)) = Inr st"
    using assms by (simp add: pbixDataMashup_def)
  from tryAdd_collected [OF collected_empty this] show ?thesis
    using Some by simp
qed

lemma pbixDataModelSchema_collected:
  assumes "collected st P" "pbixDataModelSchema sch files fname st = Inr st'"
  shows "collected st'
           (if P \<noteq> [] then P
            else (case zipFile files (str ''DataModelSchema'') of
                  Some schemaEntry \<Rightarrow>
                    pathQueries (jsBind (lib (asyncArrayBuffer schemaEntry))
                                   (\<lambda>buf. sch buf fname))
                | None \<Rightarrow> []))"
proof (cases "P = []")
  case False
  then have "queries st \<noteq> []"
    using collected_Nil [OF assms(1)] by simp
  then have "st' = st"
    using assms(2) by (simp add: pbixDataModelSchema_def)
  then show ?thesis
    using assms(1) False by simp
next
  case True
  then have q: "queries st = []"
    using collected_Nil [OF assms(1)] by simp
  show ?thesis
  proof (cases "zipFile files (str ''DataModelSchema'')")
    case None
    then have "st' = st"
      using assms(2) q by (simp add: pbixDataModelSchema_def)
    then show ?thesis
      using assms(1) True None by simp
  next
    case (Some schemaEntry)
    then have "tryAdd (str ''DataModelSchema'') st
                  (jsBind (lib (asyncArrayBuffer schemaEntry))
                          (\<lambda>buf. sch buf fname)) = Inr st'"
      using assms(2) q by (simp add: pbixDataModelSchema_def)
    from tryAdd_collected [OF assms(1) this] show ?thesis
      using True Some by simp
  qed
qed

lemma pbixDataModel_collected:
  assumes "collected st P" "pbixDataModel dm files fname st = Inr st'"
  shows "collected st'
           (if P \<noteq> [] then P
            else (case zipFile files (str ''DataModel'') of
                  Some dmEntry \<Rightarrow>
                    (case dm of
                       Some f \<Rightarrow> pathQueries (jsBind (lib (asyncArrayBuffer dmEntry))
                                                (\<lambda>dmData. f dmData fname))
                     | None \<Rightarrow> [])
                | None \<Rightarrow> []))"
proof (cases "P = []")
  case False
  then have "queries st \<noteq> []"
    using collected_Nil [OF assms(1)] by simp
  then have "st' = st"
    using assms(2) by (simp add: pbixDataModel_def)
  then show ?thesis
    using assms(1) False by simp
next
  case True
  then have q: "queries st = []"
    using collected_Nil [OF assms(1)] by simp
  show ?thesis
  proof (cases "zipFile files (str ''DataModel'')")
    case None
    then have "st' = st"
      using assms(2) q by (simp add: pbixDataModel_def)
    then show ?thesis
      using assms(1) True None by simp
  next
    case (Some dmEntry)
    show ?thesis
    proof (cases dm)
      case None
      then have "st' = st\<lparr>errors := errors st @
                       [(str ''DataModel'',
                         Error (str ''DataModel decoder not available. This file uses compressed V3 format.''))]\<rparr>"
        using assms(2) q Some by (simp add: pbixDataModel_def)
      then show ?thesis
        using assms(1) True Some None by (simp add: collected_errors)
    next
      case fSome: (Some f)
      then have "tryAdd (str ''DataModel'') st
                       (jsBind (lib (asyncArrayBuffer dmEntry)) (\<lambda>dmData. f dmData fname)) = Inr st'"
        using assms(2) q Some by (simp add: pbixDataModel_def)
      from tryAdd_collected [OF assms(1) this] show ?thesis
        using True Some fSome by simp
    qed
  qed
qed

lemma parsePbixFile_collected:
  assumes "parsePbixFile ld sch dm files fname = Inr st"
  shows "collected st (pbixProduced ld sch dm files fname)"
proof -
  obtain st1 where
    s1: "pbixDataMashup ld files fname = Inr st1" and
    r1: "jsBind (pbixDataModelSchema sch files fname st1) (\<lambda>st2. pbixDataModel dm files fname st2) = Inr st"
    using jsBind_Inr_D [OF assms [unfolded parsePbixFile_def]] by blast
  obtain st2 where
    s2: "pbixDataModelSchema sch files fname st1 = Inr st2" and
    s3: "pbixDataModel dm files fname st2 = Inr st"
    using jsBind_Inr_D [OF r1] by blast
  note c1 = pbixDataMashup_collected [OF s1]
  note c2 = pbixDataModelSchema_collected [OF c1 s2]
  note c3 = pbixDataModel_collected [OF c2 s3]
  show ?thesis
    using c3 by (simp add: pbixProduced_def Let_def split: if_splits)
qed

text \<open>
  C9. Whatever the extraction paths return, the query list returned by \<open>parseXlsxFile\<close>,
  and by \<open>parsePbixFile\<close>, is the list of the queries that the paths produced, in order,
  with the first query of each key kept and every later query of that key discarded
  (\<open>keepFirstByKey\<close>); its (file name, query name) pairs are pairwise distinct.
  \<open>addUnique\<close> keeps the queries already collected and, of the new queries, the first
  of each key not seen before.
\<close>

theorem query_keys_distinct:
  "(\<forall>st. parseXlsxFile ld cx pc files fname = Inr st \<longrightarrow>
          queries st = keepFirstByKey (xlsxProduced ld cx pc files fname)
          \<and> distinct (map (\<lambda>q. (fileName q, name q)) (queries st)))
   \<and> (\<forall>st. parsePbixFile ld sch dm files fname = Inr st \<longrightarrow>
          queries st = keepFirstByKey (pbixProduced ld sch dm files fname)
          \<and> distinct (map (\<lambda>q. (fileName q, name q)) (queries st)))
   \<and> fst (addUnique (qs, queryKey ` set qs) nq)
       = qs @ keepFirstByKey (filter (\<lambda>x. queryKey x \<notin> queryKey ` set qs) nq)"
proof (intro conjI allI impI)
  fix st
  assume a: "parseXlsxFile ld cx pc files fname = Inr st"
  show "queries st = keepFirstByKey (xlsxProduced ld cx pc files fname)"
    using parseXlsxFile_collected [OF a] by (simp add: collected_def)
  have "keysOk st"
    using a by (rule parseXlsxFile_ok)
  then show "distinct (map (\<lambda>q. (fileName q, name q)) (queries st))"
    by (simp add: keysOk_def distinct_pairs)
next
  fix st
  assume a: "parsePbixFile ld sch dm files fname = Inr st"
  show "queries st = keepFirstByKey (pbixProduced ld sch dm files fname)"
    using parsePbixFile_collected [OF a] by (simp add: collected_def)
  have "keysOk st"
    using a by (rule parsePbixFile_ok)
  then show "distinct (map (\<lambda>q. (fileName q, name q)) (queries st))"
    by (simp add: keysOk_def distinct_pairs)
next
  show "fst (addUnique (qs, queryKey ` set qs) nq)
       = qs @ keepFirstByKey (filter (\<lambda>x. queryKey x \<notin> queryKey ` set qs) nq)"
    using addUnique_keepFirst [of "(qs, queryKey ` set qs)" nq] by simp
qed

lemmas path_defs = startsWith_def endsWith_def str_def reCustomXmlItem_def firstMatch.simps
  litsI_def litI_def asciiUpper_def isDigit_def zipFile_def

lemmas add_defs = jsBind_def lib_def tryAdd_def tryAddQuiet_def addUniqueTo_def addUnique_def
  addUniqueOne_def queryKey_def Let_def

lemma sample_xlsx_bin:
  "xlsxBinLoop sampleLoader (str ''Book1.xlsx'') sampleXlsx \<lparr>queries = [], seen = {}, errors = []\<rparr>
   = Inr \<lparr>queries =
            [\<lparr>name = str ''A'', code = str ''1'', fileName = str ''Book1.xlsx'',
              dependencies = [], externalRefs = []\<rparr>],
          seen = {str ''Book1.xlsx::A''}, errors = []\<rparr>"
  by (simp add: sampleXlsx_def sample_mashup_eval path_defs add_defs)

lemma sample_xlsx_xml:
  "xlsxXmlLoop sampleCustomXml (str ''Book1.xlsx'') sampleXlsx
     \<lparr>queries =
            [\<lparr>name = str ''A'', code = str ''1'', fileName = str ''Book1.xlsx'',
              dependencies = [], externalRefs = []\<rparr>],
          seen = {str ''Book1.xlsx::A''}, errors = []\<rparr>
   = Inr \<lparr>queries =
            [\<lparr>name = str ''A'', code = str ''1'', fileName = str ''Book1.xlsx'',
              dependencies = [], externalRefs = []\<rparr>,
             \<lparr>name = str ''B'', code = str ''3'', fileName = str ''Book1.xlsx'',
              dependencies = [], externalRefs = []\<rparr>],
          seen = {str ''Book1.xlsx::B'', str ''Book1.xlsx::A''}, errors = []\<rparr>"
  by (simp add: sampleXlsx_def sampleCustomXml_def path_defs add_defs)

lemma sample_xlsx_eval:
  "parseXlsxFile sampleLoader sampleCustomXml (\<lambda>xml fn. Inr []) sampleXlsx (str ''Book1.xlsx'')
   = Inr \<lparr>queries =
            [\<lparr>name = str ''A'', code = str ''1'', fileName = str ''Book1.xlsx'',
              dependencies = [], externalRefs = []\<rparr>,
             \<lparr>name = str ''B'', code = str ''3'', fileName = str ''Book1.xlsx'',
              dependencies = [], externalRefs = []\<rparr>],
          seen = {str ''Book1.xlsx::B'', str ''Book1.xlsx::A''}, errors = []\<rparr>"
  unfolding parseXlsxFile_def sample_xlsx_bin
  apply (simp only: jsBind_def sum.case sample_xlsx_xml)
  apply (simp add: xlsxConnections_def sampleXlsx_def path_defs)
  done

lemma sample_pbix_eval:
  "parsePbixFile sampleLoader (\<lambda>buf fn. Inr []) None samplePbix (str ''Model.pbix'')
   = Inr \<lparr>queries =
            [\<lparr>name = str ''A'', code = str ''1'', fileName = str ''Model.pbix'',
              dependencies = [], externalRefs = []\<rparr>],
          seen = {str ''Model.pbix::A''}, errors = []\<rparr>"
  by (simp add: parsePbixFile_def pbixDataMashup_def pbixDataModelSchema_def pbixDataModel_def
           samplePbix_def sample_mashup_eval path_defs add_defs)

lemma sample_xlsx_produced:
  "xlsxProduced sampleLoader sampleCustomXml (\<lambda>xml fn. Inr []) sampleXlsx (str ''Book1.xlsx'')
   = [\<lparr>name = str ''A'', code = str ''1'', fileName = str ''Book1.xlsx'',
        dependencies = [], externalRefs = []\<rparr>,
      \<lparr>name = str ''A'', code = str ''2'', fileName = str ''Book1.xlsx'',
        dependencies = [], externalRefs = []\<rparr>,
      \<lparr>name = str ''B'', code = str ''3'', fileName = str ''Book1.xlsx'',
        dependencies = [], externalRefs = []\<rparr>]"
proof -
  have b: "xlsxBinQueries sampleLoader (str ''Book1.xlsx'') sampleXlsx
     = [\<lparr>name = str ''A'', code = str ''1'', fileName = str ''Book1.xlsx'',
        dependencies = [], externalRefs = []\<rparr>]"
    by (simp add: xlsxBinQueries_def sampleXlsx_def sample_mashup_eval path_defs jsBind_def lib_def
          pathQueries_def)
  have x: "xlsxXmlQueries sampleCustomXml (str ''Book1.xlsx'') sampleXlsx
     = [\<lparr>name = str ''A'', code = str ''2'', fileName = str ''Book1.xlsx'',
        dependencies = [], externalRefs = []\<rparr>,
      \<lparr>name = str ''B'', code = str ''3'', fileName = str ''Book1.xlsx'',
        dependencies = [], externalRefs = []\<rparr>]"
    by (simp add: xlsxXmlQueries_def sampleXlsx_def sampleCustomXml_def path_defs jsBind_def lib_def
          pathQueries_def)
  show ?thesis
    unfolding xlsxProduced_def b x by (simp add: Let_def)
qed

lemma sample_pbit_eval:
  "parsePbixFile sampleLoader sampleSchemaPath None samplePbit (str ''Model.pbit'')
   = Inr \<lparr>queries =
            [\<lparr>name = str ''A'', code = str ''2'', fileName = str ''Model.pbit'',
              dependencies = [], externalRefs = []\<rparr>,
             \<lparr>name = str ''B'', code = str ''3'', fileName = str ''Model.pbit'',
              dependencies = [], externalRefs = []\<rparr>],
          seen = {str ''Model.pbit::B'', str ''Model.pbit::A''}, errors = []\<rparr>"
  by (simp add: parsePbixFile_def pbixDataMashup_def pbixDataModelSchema_def pbixDataModel_def
           samplePbit_def sampleSchemaPath_def path_defs add_defs)

lemma sample_pbit_produced:
  "pbixProduced sampleLoader sampleSchemaPath None samplePbit (str ''Model.pbit'')
   = [\<lparr>name = str ''A'', code = str ''2'', fileName = str ''Model.pbit'',
        dependencies = [], externalRefs = []\<rparr>,
      \<lparr>name = str ''B'', code = str ''3'', fileName = str ''Model.pbit'',
        dependencies = [], externalRefs = []\<rparr>,
      \<lparr>name = str ''A'', code = str ''4'', fileName = str ''Model.pbit'',
        dependencies = [], externalRefs = []\<rparr>]"
  by (simp add: pbixProduced_def samplePbit_def sampleSchemaPath_def path_defs jsBind_def lib_def
        pathQueries_def Let_def)

theorem query_keys_distinct_witness:
  "parseXlsxFile sampleLoader sampleCustomXml (\<lambda>xml fn. Inr []) sampleXlsx (str ''Book1.xlsx'')
   = Inr \<lparr>queries =
            [\<lparr>name = str ''A'', code = str ''1'', fileName = str ''Book1.xlsx'',
              dependencies = [], externalRefs = []\<rparr>,
             \<lparr>name = str ''B'', code = str ''3'', fileName = str ''Book1.xlsx'',
              dependencies = [], externalRefs = []\<rparr>],
          seen = {str ''Book1.xlsx::B'', str ''Book1.xlsx::A''}, errors = []\<rparr>
   \<and> [\<lparr>name = str ''A'', code = str ''1'', fileName = str ''Book1.xlsx'',
              dependencies = [], externalRefs = []\<rparr>,
             \<lparr>name = str ''B'', code = str ''3'', fileName = str ''Book1.xlsx'',
              dependencies = [], externalRefs = []\<rparr>]
       = keepFirstByKey (xlsxProduced sampleLoader sampleCustomXml (\<lambda>xml fn. Inr []) sampleXlsx
                            (str ''Book1.xlsx''))
   \<and> xlsxProduced sampleLoader sampleCustomXml (\<lambda>xml fn. Inr []) sampleXlsx (str ''Book1.xlsx'')
       = [\<lparr>name = str ''A'', code = str ''1'', fileName = str ''Book1.xlsx'',
            dependencies = [], externalRefs = []\<rparr>,
          \<lparr>name = str ''A'', code = str ''2'', fileName = str ''Book1.xlsx'',
            dependencies = [], externalRefs = []\<rparr>,
          \<lparr>name = str ''B'', code = str ''3'', fileName = str ''Book1.xlsx'',
            dependencies = [], externalRefs = []\<rparr>]
   \<and> parsePbixFile sampleLoader sampleSchemaPath None samplePbit (str ''Model.pbit'')
   = Inr \<lparr>queries =
            [\<lparr>name = str ''A'', code = str ''2'', fileName = str ''Model.pbit'',
              dependencies = [], externalRefs = []\<rparr>,
             \<lparr>name = str ''B'', code = str ''3'', fileName = str ''Model.pbit'',
              dependencies = [], externalRefs = []\<rparr>],
          seen = {str ''Model.pbit::B'', str ''Model.pbit::A''}, errors = []\<rparr>
   \<and> [\<lparr>name = str ''A'', code = str ''2'', fileName = str ''Model.pbit'',
              dependencies = [], externalRefs = []\<rparr>,
             \<lparr>name = str ''B'', code = str ''3'', fileName = str ''Model.pbit'',
              dependencies = [], externalRefs = []\<rparr>]
       = keepFirstByKey (pbixProduced sampleLoader sampleSchemaPath None samplePbit (str ''Model.pbit''))
   \<and> pbixProduced sampleLoader sampleSchemaPath None samplePbit (str ''Model.pbit'')
       = [\<lparr>name = str ''A'', code = str ''2'', fileName = str ''Model.pbit'',
            dependencies = [], externalRefs = []\<rparr>,
          \<lparr>name = str ''B'', code = str ''3'', fileName = str ''Model.pbit'',
            dependencies = [], externalRefs = []\<rparr>,
          \<lparr>name = str ''A'', code = str ''4'', fileName = str ''Model.pbit'',
            dependencies = [], externalRefs = []\<rparr>]"
proof -
  note x = query_keys_distinct
          [of sampleLoader sampleCustomXml "\<lambda>xml fn. Inr []" sampleXlsx "str ''Book1.xlsx''"
              sampleSchemaPath None "[]" "[]", THEN conjunct1, THEN spec, THEN mp, OF sample_xlsx_eval,
           THEN conjunct1]
  note p = query_keys_distinct
          [of sampleLoader sampleCustomXml "\<lambda>xml fn. Inr []" samplePbit "str ''Model.pbit''"
              sampleSchemaPath None "[]" "[]", THEN conjunct2, THEN conjunct1, THEN spec, THEN mp,
           OF sample_pbit_eval, THEN conjunct1]
  show ?thesis
    using x p sample_xlsx_eval sample_pbit_eval sample_xlsx_produced sample_pbit_produced
    by (intro conjI) simp_all
qed

subsection \<open>C3: integers of serial types 1 to 6\<close>

lemmas record_defs = parseRecord_def readVarint_def readVarintFrom.simps typesLoop.simps
  readIntLoop.simps byteOr0_def readInt_def roundInt_def toNumber_def jsShl1_def jsBind_def Let_def

text \<open>
  C3 says that a payload whose top bit is set decodes to the exact negative value for
  every width. The code does so for 1, 2 and 3 bytes only. The subtraction is written
  \<open>val -= (1 << (len * 8))\<close>, and \<open>1 << 32\<close> is 1 and \<open>1 << 48\<close> is 65536 on 32-bit
  shifts: the record with header \<open>02 04\<close> and payload \<open>FF FF FF FF\<close> decodes to
  4294967294, not to -1, and six bytes \<open>FF\<close> decode to 281474976645119. A 4-byte
  payload without the top bit is decoded as it stands.
\<close>

theorem parseRecord_wide_integers:
  "parseRecord [0x02, 0x04, 0xFF, 0xFF, 0xFF, 0xFF] = Inr [VInt 4294967294]
   \<and> parseRecord [0x02, 0x05, 0xFF, 0xFF, 0xFF, 0xFF, 0xFF, 0xFF] = Inr [VInt 281474976645119]
   \<and> parseRecord [0x02, 0x04, 0x7F, 0xFF, 0xFF, 0xFF] = Inr [VInt 2147483647]
   \<and> parseRecord [0x02, 0x01, 0xFF] = Inr [VInt (- 1)]
   \<and> parseRecord [0x02, 0x02, 0xFF, 0xFF] = Inr [VInt (- 1)]
   \<and> parseRecord [0x02, 0x03, 0xFF, 0xFF, 0xFF] = Inr [VInt (- 1)]"
  by (simp add: record_defs)

subsection \<open>Columns whose dictionary file is missing\<close>

















subsection \<open>C7: a decoder session of its own for every thread group\<close>





















end
